theory Spec2Isabelle
  imports Complex_Main "HOL-Library.Sublist" "HOL-Library.AList"
begin

section \<open>JavaScript values\<close>

text \<open>
  The page (\<^verbatim>\<open>frontend/app/page.tsx\<close>) is a React component. Its TypeScript types are
  erased at run time: \<^verbatim>\<open>JSON.parse\<close> and \<^verbatim>\<open>res.json()\<close> return \<^verbatim>\<open>any\<close>, and
  whatever they return is stored in the component state. The state therefore holds
  JavaScript values, not only the values of the declared types.

  Strings are byte strings holding UTF-8 text; a surrogate that is not half of a pair
  is held as the three bytes of its code point. An object is the list of its own
  properties, each key once, in the order in which JavaScript enumerates them.

  A number is a double. The finite doubles are the rationals \<open>m * 2 ^ e\<close> with
  \<open>\<bar>m\<bar> < 2 ^ 53\<close> and \<open>- 1074 \<le> e\<close> that are below \<open>2 ^ 1024\<close> in absolute
  value. The two zeros are one value here: the page applies no operation that tells
  them apart. \<^verbatim>\<open>NaN\<close> is left out: no JSON text denotes it and the page does no
  arithmetic.
\<close>

datatype number =
    Finite rat
  | Infinity
  | MinusInfinity

datatype jsval =
    JUndefined
  | JNull
  | JBool bool
  | JNum number
  | JStr string
  | JArr "jsval list"
  | JObj "(string \<times> jsval) list"

datatype js_error =
    Error string
  | TypeError string
  | SyntaxError string

fun message :: "js_error \<Rightarrow> string" where
  "message (Error m) = m"
| "message (TypeError m) = m"
| "message (SyntaxError m) = m"

text \<open>Truthiness, as \<^verbatim>\<open>!x\<close>, \<^verbatim>\<open>x || y\<close> and \<^verbatim>\<open>x && y\<close> read it.\<close>

fun truthy :: "jsval \<Rightarrow> bool" where
  "truthy JUndefined = False"
| "truthy JNull = False"
| "truthy (JBool b) = b"
| "truthy (JNum n) = (n \<noteq> Finite 0)"
| "truthy (JStr s) = (s \<noteq> [])"
| "truthy (JArr vs) = True"
| "truthy (JObj kvs) = True"

text \<open>\<^verbatim>\<open>a || b\<close>\<close>

definition js_or :: "jsval \<Rightarrow> jsval \<Rightarrow> jsval" where
  "js_or a b = (if truthy a then a else b)"

fun nullish :: "jsval \<Rightarrow> bool" where
  "nullish JUndefined = True"
| "nullish JNull = True"
| "nullish v = False"

text \<open>\<^verbatim>\<open>a ?? b\<close>\<close>

definition js_coalesce :: "jsval \<Rightarrow> jsval \<Rightarrow> jsval" where
  "js_coalesce a b = (if nullish a then b else a)"

text \<open>
  Reading a property, \<^verbatim>\<open>v.name\<close>, for the names the page reads (\<^verbatim>\<open>detail\<close>,
  \<^verbatim>\<open>answer\<close>, \<^verbatim>\<open>result\<close>, \<^verbatim>\<open>verdict\<close>, \<^verbatim>\<open>reason\<close>, \<^verbatim>\<open>evidence\<close>,
  \<^verbatim>\<open>question\<close>, \<^verbatim>\<open>claim\<close>, \<^verbatim>\<open>factResult\<close>): none of them is a property of a
  built-in prototype, so a primitive or an array has none of them. Reading a property
  of \<^verbatim>\<open>null\<close> or \<^verbatim>\<open>undefined\<close> throws a TypeError (the wording is V8's).
\<close>

definition own_property :: "(string \<times> jsval) list \<Rightarrow> string \<Rightarrow> jsval" where
  "own_property kvs name = (case map_of kvs name of None \<Rightarrow> JUndefined | Some v \<Rightarrow> v)"

fun get_prop :: "jsval \<Rightarrow> string \<Rightarrow> js_error + jsval" where
  "get_prop JUndefined name =
     Inl (TypeError (''Cannot read properties of undefined (reading '' @ [CHR 0x27] @ name @ [CHR 0x27] @ '')''))"
| "get_prop JNull name =
     Inl (TypeError (''Cannot read properties of null (reading '' @ [CHR 0x27] @ name @ [CHR 0x27] @ '')''))"
| "get_prop (JObj kvs) name = Inr (own_property kvs name)"
| "get_prop v name = Inr JUndefined"

text \<open>Sequencing of steps that may throw: the first error ends the block.\<close>

definition and_then :: "'e + 'a \<Rightarrow> ('a \<Rightarrow> 'e + 'b) \<Rightarrow> 'e + 'b" where
  "and_then r f = (case r of Inl e \<Rightarrow> Inl e | Inr x \<Rightarrow> f x)"

section \<open>Strings of the platform\<close>

subsection \<open>Decimal numerals\<close>

definition digit_char :: "nat \<Rightarrow> char" where
  "digit_char d = char_of (48 + d)"

text \<open>The decimal digits of an integer that is not negative.\<close>

function digits :: "int \<Rightarrow> string" where
  "digits n =
     (if n < 10 then [digit_char (nat n)] else digits (n div 10) @ [digit_char (nat (n mod 10))])"
  by pat_completeness auto
termination
  by (relation "measure nat") auto

declare digits.simps [simp del]

subsection \<open>Doubles\<close>

text \<open>The number of binary digits of a positive integer.\<close>

function bit_length :: "int \<Rightarrow> nat" where
  "bit_length n = (if n \<le> 0 then 0 else Suc (bit_length (n div 2)))"
  by pat_completeness auto
termination
  by (relation "measure nat") auto

declare bit_length.simps [simp del]

text \<open>The quotient \<open>p / q\<close> divided by \<open>2 ^ e\<close>, as a fraction.\<close>

definition scaled :: "int \<Rightarrow> int \<Rightarrow> int \<Rightarrow> int \<times> int" where
  "scaled p q e = (if e < 0 then (p * 2 ^ nat (- e), q) else (p, q * 2 ^ nat e))"

text \<open>For positive \<open>p\<close> and \<open>q\<close>, the \<open>e\<close> with \<open>2 ^ e \<le> p / q < 2 ^ (e + 1)\<close>.\<close>

definition floor_log2 :: "int \<Rightarrow> int \<Rightarrow> int" where
  "floor_log2 p q =
     (let l = int (bit_length p) - int (bit_length q)
      in case scaled p q l of (a, b) \<Rightarrow> if b \<le> a then l else l - 1)"

definition pow2 :: "int \<Rightarrow> rat" where
  "pow2 e = (if e < 0 then 1 / 2 ^ nat (- e) else 2 ^ nat e)"

text \<open>
  The double nearest to \<open>p / q\<close>, for \<open>p\<close> not negative and \<open>q\<close> positive: the
  quotient is written as \<open>m * 2 ^ e\<close> with 53 binary digits in \<open>m\<close> (fewer at the
  bottom of the range, where \<open>e\<close> is \<open>- 1074\<close>), \<open>m\<close> is rounded to the nearest
  integer, to the even one of two that are equally near, and a result of \<open>2 ^ 1024\<close>
  or more is infinite.
\<close>

definition nearest_double :: "int \<Rightarrow> int \<Rightarrow> number" where
  "nearest_double p q =
     (if p \<le> 0 then Finite 0
      else (let e = max (floor_log2 p q - 52) (- 1074)
            in case scaled p q e of
                 (a, b) \<Rightarrow>
                   (let m = a div b;
                        r = a mod b;
                        m1 = (if b < 2 * r \<or> (2 * r = b \<and> odd m) then m + 1 else m)
                    in if 0 \<le> e \<and> 2 ^ 1024 \<le> m1 * 2 ^ nat e then Infinity
                       else Finite (of_int m1 * pow2 e))))"

fun negate :: "number \<Rightarrow> number" where
  "negate (Finite x) = Finite (- x)"
| "negate Infinity = MinusInfinity"
| "negate MinusInfinity = Infinity"

text \<open>The double nearest to a rational number.\<close>

definition to_double :: "rat \<Rightarrow> number" where
  "to_double x =
     (case quotient_of \<bar>x\<bar> of
        (p, q) \<Rightarrow> if x < 0 then negate (nearest_double p q) else nearest_double p q)"

subsection \<open>\<^verbatim>\<open>Number.prototype.toString\<close>\<close>

definition pow10 :: "int \<Rightarrow> rat" where
  "pow10 i = (if i < 0 then 1 / 10 ^ nat (- i) else 10 ^ nat i)"

text \<open>For positive \<open>x\<close>, the \<open>n\<close> with \<open>10 ^ (n - 1) \<le> x < 10 ^ n\<close>.\<close>

definition decimal_exponent :: "rat \<Rightarrow> int" where
  "decimal_exponent x =
     (case quotient_of x of
        (p, q) \<Rightarrow>
          (let l = int (length (digits p)) - int (length (digits q))
           in if pow10 l \<le> x then l + 1 else l))"

text \<open>
  ECMAScript writes a positive double \<open>x\<close> with the digits of the integer \<open>s\<close> and the
  exponent \<open>n\<close> for which \<open>s * 10 ^ (n - k)\<close> is a number that rounds to \<open>x\<close>,
  where \<open>k\<close>, the number of digits of \<open>s\<close>, is as small as possible; of several such
  \<open>s\<close> it takes the one nearest to \<open>x\<close>, and the even one of two equally near.

  With \<open>k\<close> digits it is enough to look at the two neighbours of \<open>x\<close> among the
  multiples of \<open>10 ^ (n - k)\<close>, where \<open>10 ^ (n - 1) \<le> x < 10 ^ n\<close>.
\<close>

definition shortest_at :: "rat \<Rightarrow> int \<Rightarrow> nat \<Rightarrow> (int \<times> int) option" where
  "shortest_at x n k =
     (let unit = pow10 (n - int k);
          s = \<lfloor>x / unit\<rfloor>;
          below = of_int s * unit;
          above = of_int (s + 1) * unit;
          b = (to_double below = Finite x);
          a = (to_double above = Finite x);
          up = (a \<and> (\<not> b \<or> above - x < x - below \<or> (above - x = x - below \<and> odd s)))
      in if \<not> a \<and> \<not> b then None
         else if \<not> up then Some (s, n)
         else if s + 1 = 10 ^ k then Some (10 ^ (k - 1), n + 1)
         else Some (s + 1, n))"

text \<open>
  Seventeen digits are enough for every double. (For a rational that is not a double
  no digits round to it; it gets its first seventeen digits.)
\<close>

definition shortest_digits :: "rat \<Rightarrow> int \<times> int" where
  "shortest_digits x =
     (let n = decimal_exponent x
      in case List.map_filter (shortest_at x n) [1..<18] of
           d # ds \<Rightarrow> d
         | [] \<Rightarrow> (\<lfloor>x * pow10 (17 - n)\<rfloor>, n))"

text \<open>
  The notation: plain digits for an integer below \<open>10 ^ 21\<close>, a decimal point inside
  or in front of the digits down to \<open>10 ^ - 7\<close>, and an exponent otherwise.
\<close>

definition digits_text :: "int \<Rightarrow> int \<Rightarrow> string" where
  "digits_text s n =
     (let ds = digits s;
          k = int (length ds)
      in if k \<le> n \<and> n \<le> 21 then ds @ replicate (nat (n - k)) (CHR ''0'')
         else if 0 < n \<and> n \<le> 21 then take (nat n) ds @ ''.'' @ drop (nat n) ds
         else if - 6 < n \<and> n \<le> 0 then ''0.'' @ replicate (nat (- n)) (CHR ''0'') @ ds
         else (if k = 1 then ds else take 1 ds @ ''.'' @ drop 1 ds)
              @ ''e'' @ (if n < 1 then ''-'' else ''+'') @ digits \<bar>n - 1\<bar>)"

fun Number_toString :: "number \<Rightarrow> string" where
  "Number_toString Infinity = ''Infinity''"
| "Number_toString MinusInfinity = ''-Infinity''"
| "Number_toString (Finite x) =
     (if x = 0 then ''0''
      else (if x < 0 then ''-'' else [])
           @ (case shortest_digits \<bar>x\<bar> of (s, n) \<Rightarrow> digits_text s n))"

subsection \<open>\<^verbatim>\<open>String(v)\<close>\<close>

text \<open>
  The conversion \<^verbatim>\<open>new Error(v)\<close> and \<^verbatim>\<open>JSON.parse(v)\<close> apply to their argument.
  An array joins its elements with commas, \<^verbatim>\<open>null\<close> and \<^verbatim>\<open>undefined\<close> elements as
  the empty string. An object is converted by its \<^verbatim>\<open>toString\<close> method: the inherited
  one gives \<^verbatim>\<open>[object Object]\<close>; an own property of that name hides it, and since no
  value of this model is a function the conversion then throws (whether or not the
  object has a \<^verbatim>\<open>valueOf\<close> of its own; the wording is V8's).
\<close>

fun ToString :: "jsval \<Rightarrow> js_error + string"
  and join_elems :: "jsval list \<Rightarrow> js_error + string" where
  "ToString JUndefined = Inr ''undefined''"
| "ToString JNull = Inr ''null''"
| "ToString (JBool b) = Inr (if b then ''true'' else ''false'')"
| "ToString (JNum n) = Inr (Number_toString n)"
| "ToString (JStr s) = Inr s"
| "ToString (JArr vs) = join_elems vs"
| "ToString (JObj kvs) =
     (if map_of kvs ''toString'' = None then Inr ''[object Object]''
      else Inl (TypeError ''Cannot convert object to primitive value''))"
| "join_elems [] = Inr []"
| "join_elems (v # vs) =
     and_then (if nullish v then Inr [] else ToString v) (\<lambda>first.
       if vs = [] then Inr first
       else and_then (join_elems vs) (\<lambda>others. Inr (first @ '','' @ others)))"

subsection \<open>\<^verbatim>\<open>String.prototype.trim\<close>\<close>

text \<open>
  The white space and line terminators of ECMAScript, each as its UTF-8 bytes:
  U+0009 to U+000D, U+0020, U+00A0, U+1680, U+2000 to U+200A, U+2028, U+2029, U+202F,
  U+205F, U+3000 and U+FEFF.
\<close>

definition white_space :: "string list" where
  "white_space =
     [[CHR 0x09], [CHR 0x0A], [CHR 0x0B], [CHR 0x0C], [CHR 0x0D], [CHR 0x20],
      [CHR 0xC2, CHR 0xA0],
      [CHR 0xE1, CHR 0x9A, CHR 0x80],
      [CHR 0xE2, CHR 0x80, CHR 0x80], [CHR 0xE2, CHR 0x80, CHR 0x81],
      [CHR 0xE2, CHR 0x80, CHR 0x82], [CHR 0xE2, CHR 0x80, CHR 0x83],
      [CHR 0xE2, CHR 0x80, CHR 0x84], [CHR 0xE2, CHR 0x80, CHR 0x85],
      [CHR 0xE2, CHR 0x80, CHR 0x86], [CHR 0xE2, CHR 0x80, CHR 0x87],
      [CHR 0xE2, CHR 0x80, CHR 0x88], [CHR 0xE2, CHR 0x80, CHR 0x89],
      [CHR 0xE2, CHR 0x80, CHR 0x8A],
      [CHR 0xE2, CHR 0x80, CHR 0xA8], [CHR 0xE2, CHR 0x80, CHR 0xA9],
      [CHR 0xE2, CHR 0x80, CHR 0xAF],
      [CHR 0xE2, CHR 0x81, CHR 0x9F],
      [CHR 0xE3, CHR 0x80, CHR 0x80],
      [CHR 0xEF, CHR 0xBB, CHR 0xBF]]"

text \<open>The member of a table of byte sequences that a string starts with, if any.\<close>

definition leading :: "string list \<Rightarrow> string \<Rightarrow> string option" where
  "leading table s = find (\<lambda>w. w \<noteq> [] \<and> prefix w s) table"

function strip :: "string list \<Rightarrow> string \<Rightarrow> string" where
  "strip table s = (case leading table s of None \<Rightarrow> s | Some w \<Rightarrow> strip table (drop (length w) s))"
  by pat_completeness auto
termination
proof (relation "measure (\<lambda>(table, s). length s)")
  show "wf (measure (\<lambda>(table, s). length s))" by simp
next
  fix table :: "string list" and s w :: string
  assume "leading table s = Some w"
  then have "w \<noteq> []" and "prefix w s"
    by (auto simp: leading_def find_Some_iff)
  then have "length w \<le> length s" and "0 < length w"
    by (auto simp: prefix_def)
  then have "length s - length w < length s"
    by linarith
  then show "((table, drop (length w) s), (table, s)) \<in> measure (\<lambda>(table, s). length s)"
    by simp
qed

declare strip.simps [simp del]

definition trimStart :: "string \<Rightarrow> string" where
  "trimStart s = strip white_space s"

definition trimEnd :: "string \<Rightarrow> string" where
  "trimEnd s = rev (strip (map rev white_space) (rev s))"

definition trim :: "string \<Rightarrow> string" where
  "trim s = trimEnd (trimStart s)"

text \<open>
  \<^verbatim>\<open>x.trim()\<close> on the state variable \<open>x\<close>: a string has the method; \<^verbatim>\<open>null\<close>
  and \<^verbatim>\<open>undefined\<close> have no properties, and no other JSON value has a \<^verbatim>\<open>trim\<close>
  method (the wording of the errors is V8's).
\<close>

fun call_trim :: "string \<Rightarrow> jsval \<Rightarrow> js_error + string" where
  "call_trim x (JStr s) = Inr (trim s)"
| "call_trim x JUndefined = Inl (TypeError ''Cannot read properties of undefined (reading 'trim')'')"
| "call_trim x JNull = Inl (TypeError ''Cannot read properties of null (reading 'trim')'')"
| "call_trim x v = Inl (TypeError (x @ ''.trim is not a function''))"

section \<open>JSON\<close>

subsection \<open>\<^verbatim>\<open>JSON.stringify\<close>\<close>

text \<open>
  A string is quoted with the escapes of ECMAScript's \<^verbatim>\<open>QuoteJSONString\<close>: the quote
  and the backslash, the short escapes of the control characters that have one,
  \<^verbatim>\<open>\u00xx\<close> (lower-case digits) for the other characters below U+0020, and
  \<^verbatim>\<open>\udxxx\<close> for a surrogate that is not half of a pair.
\<close>

definition hex_digit :: "nat \<Rightarrow> char" where
  "hex_digit d = (if d < 10 then char_of (48 + d) else char_of (87 + d))"

definition quote_char :: "char \<Rightarrow> string" where
  "quote_char c =
     (if c = CHR 0x22 then [CHR 0x5C, CHR 0x22]
      else if c = CHR 0x5C then [CHR 0x5C, CHR 0x5C]
      else if c = CHR 0x08 then [CHR 0x5C, CHR ''b'']
      else if c = CHR 0x0C then [CHR 0x5C, CHR ''f'']
      else if c = CHR 0x0A then [CHR 0x5C, CHR ''n'']
      else if c = CHR 0x0D then [CHR 0x5C, CHR ''r'']
      else if c = CHR 0x09 then [CHR 0x5C, CHR ''t'']
      else if of_char c < (32::nat)
        then [CHR 0x5C, CHR ''u'', CHR ''0'', CHR ''0'',
              hex_digit (of_char c div 16), hex_digit (of_char c mod 16)]
      else [c])"

text \<open>
  The three bytes of a surrogate at the start of a string: its code unit (U+D800 to
  U+DFFF) and the rest of the string.
\<close>

definition surrogate :: "string \<Rightarrow> (nat \<times> string) option" where
  "surrogate s =
     (case s of
        a # b # c # r \<Rightarrow>
          if a = CHR 0xED \<and> 0xA0 \<le> (of_char b :: nat) \<and> (of_char b :: nat) \<le> 0xBF
             \<and> 0x80 \<le> (of_char c :: nat) \<and> (of_char c :: nat) \<le> 0xBF
          then Some (0xD000 + (of_char b mod 64) * 64 + of_char c mod 64, r)
          else None
      | _ \<Rightarrow> None)"

text \<open>A high surrogate followed by a low one: a pair, which stands for one character.\<close>

definition pair_at :: "string \<Rightarrow> bool" where
  "pair_at s =
     (case surrogate s of
        None \<Rightarrow> False
      | Some (hi, r) \<Rightarrow>
          (case surrogate r of
             None \<Rightarrow> False
           | Some (lo, r1) \<Rightarrow> hi < 0xDC00 \<and> 0xDC00 \<le> lo))"

definition unicode_escape_of :: "nat \<Rightarrow> string" where
  "unicode_escape_of u =
     [CHR 0x5C, CHR ''u'', hex_digit (u div 4096), hex_digit (u div 256 mod 16),
      hex_digit (u div 16 mod 16), hex_digit (u mod 16)]"

lemma surrogate_shorter: "surrogate s = Some (u, r) \<Longrightarrow> length r < length s"
  by (auto simp: surrogate_def split: list.splits if_splits)

function quote_chars :: "string \<Rightarrow> string" where
  "quote_chars s =
     (case s of
        [] \<Rightarrow> []
      | c # r \<Rightarrow>
          if pair_at s then take 6 s @ quote_chars (drop 6 s)
          else (case surrogate s of
                  Some (u, r1) \<Rightarrow> unicode_escape_of u @ quote_chars r1
                | None \<Rightarrow> quote_char c @ quote_chars r))"
  by pat_completeness auto
termination
  by (relation "measure length") (auto dest: surrogate_shorter)

declare quote_chars.simps [simp del]

definition quote :: "string \<Rightarrow> string" where
  "quote s = [CHR 0x22] @ quote_chars s @ [CHR 0x22]"

text \<open>
  The text of a value. A property whose value is \<^verbatim>\<open>undefined\<close> is left out of its
  object; an \<^verbatim>\<open>undefined\<close> element of an array is written \<^verbatim>\<open>null\<close>, and so is
  a number that is not finite.
\<close>

fun ser :: "jsval \<Rightarrow> string"
  and ser_elems :: "jsval list \<Rightarrow> string"
  and ser_members :: "(string \<times> jsval) list \<Rightarrow> string" where
  "ser JUndefined = ''null''"
| "ser JNull = ''null''"
| "ser (JBool b) = (if b then ''true'' else ''false'')"
| "ser (JNum n) = (case n of Finite x \<Rightarrow> Number_toString n | _ \<Rightarrow> ''null'')"
| "ser (JStr s) = quote s"
| "ser (JArr vs) = ''['' @ ser_elems vs @ '']''"
| "ser (JObj kvs) = ''{'' @ ser_members kvs @ ''}''"
| "ser_elems [] = []"
| "ser_elems (v # vs) = ser v @ (if vs = [] then [] else '','' @ ser_elems vs)"
| "ser_members [] = []"
| "ser_members ((k, v) # kvs) =
     (let others = ser_members kvs
      in if v = JUndefined then others
         else quote k @ '':'' @ ser v @ (if others = [] then [] else '','' @ others))"

text \<open>\<^verbatim>\<open>JSON.stringify(v)\<close>: \<^verbatim>\<open>undefined\<close> itself has no text.\<close>

definition JSON_stringify :: "jsval \<Rightarrow> jsval" where
  "JSON_stringify v = (if v = JUndefined then JUndefined else JStr (ser v))"

subsection \<open>\<^verbatim>\<open>JSON.parse\<close>\<close>

definition is_json_ws :: "char \<Rightarrow> bool" where
  "is_json_ws c = (c = CHR 0x20 \<or> c = CHR 0x09 \<or> c = CHR 0x0A \<or> c = CHR 0x0D)"

definition skip_ws :: "string \<Rightarrow> string" where
  "skip_ws s = dropWhile is_json_ws s"

definition is_digit :: "char \<Rightarrow> bool" where
  "is_digit c = (48 \<le> (of_char c :: nat) \<and> (of_char c :: nat) \<le> 57)"

definition digit_val :: "char \<Rightarrow> int" where
  "digit_val c = of_char c - 48"

text \<open>The integer a sequence of decimal digits denotes.\<close>

definition digits_value :: "string \<Rightarrow> int" where
  "digits_value ds = foldl (\<lambda>n c. 10 * n + digit_val c) 0 ds"

text \<open>
  A number of the JSON grammar: an optional minus sign, the digits of an integer with
  no leading zero, an optional fraction (a point and at least one digit) and an
  optional exponent (\<^verbatim>\<open>e\<close> or \<^verbatim>\<open>E\<close>, an optional sign and at least one digit).
\<close>

definition fraction :: "string \<Rightarrow> (string \<times> string) option" where
  "fraction r =
     (if r \<noteq> [] \<and> hd r = CHR ''.''
      then (let fs = takeWhile is_digit (tl r)
            in if fs = [] then None else Some (fs, dropWhile is_digit (tl r)))
      else Some ([], r))"

definition exponent :: "string \<Rightarrow> (int \<times> string) option" where
  "exponent r =
     (if r \<noteq> [] \<and> (hd r = CHR ''e'' \<or> hd r = CHR ''E'')
      then (let r1 = tl r;
                neg = (r1 \<noteq> [] \<and> hd r1 = CHR ''-'');
                r2 = (if r1 \<noteq> [] \<and> (hd r1 = CHR ''-'' \<or> hd r1 = CHR ''+'') then tl r1 else r1);
                es = takeWhile is_digit r2
            in if es = [] then None
               else Some (if neg then - digits_value es else digits_value es,
                          dropWhile is_digit r2))
      else Some (0, r))"

text \<open>
  The number with integer digits \<open>ds\<close>, fraction digits \<open>fs\<close> and exponent \<open>e\<close>: the
  double nearest to the decimal the text denotes.
\<close>

definition number_of_decimal :: "bool \<Rightarrow> string \<Rightarrow> string \<Rightarrow> int \<Rightarrow> number" where
  "number_of_decimal neg ds fs e =
     (let m = digits_value (ds @ fs);
          x = e - int (length fs);
          d = (if 0 \<le> x then nearest_double (m * 10 ^ nat x) 1
               else nearest_double m (10 ^ nat (- x)))
      in if neg then negate d else d)"

definition parse_number :: "string \<Rightarrow> (jsval \<times> string) option" where
  "parse_number s =
     (let neg = (s \<noteq> [] \<and> hd s = CHR ''-'');
          s1 = (if neg then tl s else s);
          ds = takeWhile is_digit s1;
          r1 = dropWhile is_digit s1
      in if ds = [] \<or> (1 < length ds \<and> hd ds = CHR ''0'') then None
         else (case fraction r1 of
                 None \<Rightarrow> None
               | Some (fs, r2) \<Rightarrow>
                   (case exponent r2 of
                      None \<Rightarrow> None
                    | Some (e, r3) \<Rightarrow> Some (JNum (number_of_decimal neg ds fs e), r3))))"

definition hex_val :: "char \<Rightarrow> nat option" where
  "hex_val c =
     (let n = (of_char c :: nat)
      in if 48 \<le> n \<and> n \<le> 57 then Some (n - 48)
         else if 97 \<le> n \<and> n \<le> 102 then Some (n - 87)
         else if 65 \<le> n \<and> n \<le> 70 then Some (n - 55)
         else None)"

definition hex4 :: "string \<Rightarrow> (nat \<times> string) option" where
  "hex4 s =
     (case s of
        a # b # c # d # r \<Rightarrow>
          (case (hex_val a, hex_val b, hex_val c, hex_val d) of
             (Some w, Some x, Some y, Some z) \<Rightarrow> Some (((w * 16 + x) * 16 + y) * 16 + z, r)
           | _ \<Rightarrow> None)
      | _ \<Rightarrow> None)"

text \<open>The UTF-8 bytes of a code point (a surrogate on its own as its three bytes).\<close>

definition utf8 :: "nat \<Rightarrow> string" where
  "utf8 cp =
     (if cp < 0x80 then [char_of cp]
      else if cp < 0x800 then [char_of (0xC0 + cp div 64), char_of (0x80 + cp mod 64)]
      else if cp < 0x10000
        then [char_of (0xE0 + cp div 4096), char_of (0x80 + cp div 64 mod 64),
              char_of (0x80 + cp mod 64)]
      else [char_of (0xF0 + cp div 262144), char_of (0x80 + cp div 4096 mod 64),
            char_of (0x80 + cp div 64 mod 64), char_of (0x80 + cp mod 64)])"

text \<open>
  After \<^verbatim>\<open>\u\<close>: four hexadecimal digits; a high surrogate followed by the escape of a
  low surrogate is the one code point of the pair.
\<close>

definition unicode_escape :: "string \<Rightarrow> (string \<times> string) option" where
  "unicode_escape s =
     (case hex4 s of
        None \<Rightarrow> None
      | Some (hi, r) \<Rightarrow>
          (if 0xD800 \<le> hi \<and> hi < 0xDC00 \<and> prefix [CHR 0x5C, CHR ''u''] r
           then (case hex4 (drop 2 r) of
                   None \<Rightarrow> Some (utf8 hi, r)
                 | Some (lo, r2) \<Rightarrow>
                     if 0xDC00 \<le> lo \<and> lo < 0xE000
                     then Some (utf8 (0x10000 + (hi - 0xD800) * 0x400 + (lo - 0xDC00)), r2)
                     else Some (utf8 hi, r))
           else Some (utf8 hi, r)))"

text \<open>After a backslash: the bytes the escape denotes and the rest of the text.\<close>

definition escape :: "string \<Rightarrow> (string \<times> string) option" where
  "escape s =
     (case s of
        [] \<Rightarrow> None
      | e # r \<Rightarrow>
          if e = CHR 0x22 then Some ([CHR 0x22], r)
          else if e = CHR 0x5C then Some ([CHR 0x5C], r)
          else if e = CHR ''/'' then Some (''/'', r)
          else if e = CHR ''b'' then Some ([CHR 0x08], r)
          else if e = CHR ''f'' then Some ([CHR 0x0C], r)
          else if e = CHR ''n'' then Some ([CHR 0x0A], r)
          else if e = CHR ''r'' then Some ([CHR 0x0D], r)
          else if e = CHR ''t'' then Some ([CHR 0x09], r)
          else if e = CHR ''u'' then unicode_escape r
          else None)"

lemma hex4_shorter: "hex4 s = Some (n, r) \<Longrightarrow> length r < length s"
  by (auto simp: hex4_def split: list.splits option.splits)

lemma unicode_escape_shorter: "unicode_escape s = Some (bs, r) \<Longrightarrow> length r < length s"
proof -
  assume a: "unicode_escape s = Some (bs, r)"
  then obtain hi r1 where h: "hex4 s = Some (hi, r1)"
    by (auto simp: unicode_escape_def split: option.splits)
  have l1: "length r1 < length s" using h by (rule hex4_shorter)
  have "r = r1 \<or> (\<exists>lo. hex4 (drop 2 r1) = Some (lo, r))"
    using a h by (auto simp: unicode_escape_def split: option.splits if_splits)
  then show ?thesis
  proof
    assume "r = r1" then show ?thesis using l1 by simp
  next
    assume "\<exists>lo. hex4 (drop 2 r1) = Some (lo, r)"
    then obtain lo where "hex4 (drop 2 r1) = Some (lo, r)" ..
    then have "length r < length (drop 2 r1)" by (rule hex4_shorter)
    then show ?thesis using l1 by simp
  qed
qed

lemma escape_shorter: "escape s = Some (bs, r) \<Longrightarrow> length r < length s"
  by (cases s) (auto simp: escape_def split: if_splits dest: unicode_escape_shorter)

text \<open>
  The characters of a string, after its opening quote and up to its closing quote. A
  control character is not allowed unescaped.
\<close>

function parse_chars :: "string \<Rightarrow> (string \<times> string) option" where
  "parse_chars s =
     (case s of
        [] \<Rightarrow> None
      | c # r \<Rightarrow>
          if c = CHR 0x22 then Some ([], r)
          else if c = CHR 0x5C
            then (case escape r of
                    None \<Rightarrow> None
                  | Some (bs, r1) \<Rightarrow>
                      (case parse_chars r1 of None \<Rightarrow> None | Some (t, r2) \<Rightarrow> Some (bs @ t, r2)))
          else if of_char c < (32::nat) then None
          else (case parse_chars r of None \<Rightarrow> None | Some (t, r2) \<Rightarrow> Some (c # t, r2)))"
  by pat_completeness auto
termination
  by (relation "measure length") (auto dest: escape_shorter)

declare parse_chars.simps [simp del]

text \<open>
  The order of the properties of an object: the keys that are array indices (the
  decimal numerals of the integers from 0 to \<open>2 ^ 32 - 2\<close>) come first, in ascending
  order, and the other keys follow in the order in which they were added.
\<close>

definition array_index :: "string \<Rightarrow> int option" where
  "array_index k =
     (if k \<noteq> [] \<and> list_all is_digit k \<and> (k = ''0'' \<or> hd k \<noteq> CHR ''0'')
         \<and> digits_value k < 4294967295
      then Some (digits_value k) else None)"

definition indexed :: "(string \<times> jsval) list \<Rightarrow> (int \<times> string \<times> jsval) list" where
  "indexed kvs = List.map_filter (\<lambda>kv. map_option (\<lambda>i. (i, kv)) (array_index (fst kv))) kvs"

definition property_order :: "(string \<times> jsval) list \<Rightarrow> (string \<times> jsval) list" where
  "property_order kvs =
     map snd (sort_key fst (indexed kvs)) @ filter (\<lambda>kv. array_index (fst kv) = None) kvs"

text \<open>
  The parser proper. Its first argument bounds the number of nested calls. The bound
  \<open>JSON_parse\<close> passes, the length of the text and one more, loses nothing: a text that
  parses under any bound parses under this one (lemma \<open>JSON_parse_fuel\<close> below).
\<close>

fun parse_value :: "nat \<Rightarrow> string \<Rightarrow> (jsval \<times> string) option"
  and parse_elems :: "nat \<Rightarrow> jsval list \<Rightarrow> string \<Rightarrow> (jsval \<times> string) option"
  and parse_members :: "nat \<Rightarrow> (string \<times> jsval) list \<Rightarrow> string \<Rightarrow> (jsval \<times> string) option" where
  "parse_value 0 s = None"
| "parse_value (Suc n) s =
     (let t = skip_ws s
      in if prefix ''null'' t then Some (JNull, drop 4 t)
         else if prefix ''true'' t then Some (JBool True, drop 4 t)
         else if prefix ''false'' t then Some (JBool False, drop 5 t)
         else (case t of
                 [] \<Rightarrow> None
               | c # r \<Rightarrow>
                   if c = CHR 0x22
                     then (case parse_chars r of None \<Rightarrow> None | Some (str, r1) \<Rightarrow> Some (JStr str, r1))
                   else if c = CHR ''[''
                     then (if prefix '']'' (skip_ws r) then Some (JArr [], drop 1 (skip_ws r))
                           else parse_elems n [] r)
                   else if c = CHR ''{''
                     then (if prefix ''}'' (skip_ws r) then Some (JObj [], drop 1 (skip_ws r))
                           else parse_members n [] r)
                   else parse_number t))"
| "parse_elems 0 acc s = None"
| "parse_elems (Suc n) acc s =
     (case parse_value n s of
        None \<Rightarrow> None
      | Some (v, r) \<Rightarrow>
          (case skip_ws r of
             [] \<Rightarrow> None
           | c # r1 \<Rightarrow>
               if c = CHR '','' then parse_elems n (acc @ [v]) r1
               else if c = CHR '']'' then Some (JArr (acc @ [v]), r1)
               else None))"
| "parse_members 0 acc s = None"
| "parse_members (Suc n) acc s =
     (case skip_ws s of
        [] \<Rightarrow> None
      | q # r \<Rightarrow>
          if q \<noteq> CHR 0x22 then None
          else (case parse_chars r of
                  None \<Rightarrow> None
                | Some (k, r1) \<Rightarrow>
                    (case skip_ws r1 of
                       [] \<Rightarrow> None
                     | c # r2 \<Rightarrow>
                         if c \<noteq> CHR '':'' then None
                         else (case parse_value n r2 of
                                 None \<Rightarrow> None
                               | Some (v, r3) \<Rightarrow>
                                   (case skip_ws r3 of
                                      [] \<Rightarrow> None
                                    | d # r4 \<Rightarrow>
                                        if d = CHR '','' then parse_members n (AList.update k v acc) r4
                                        else if d = CHR ''}''
                                          then Some (JObj (property_order (AList.update k v acc)), r4)
                                        else None)))))"

text \<open>
  \<^verbatim>\<open>JSON.parse(text)\<close>: one value and nothing but white space after it, or a
  SyntaxError. A key that occurs twice keeps the place of its first occurrence and
  the value of its last.
\<close>

definition JSON_parse :: "string \<Rightarrow> js_error + jsval" where
  "JSON_parse text =
     (case parse_value (Suc (length text)) text of
        None \<Rightarrow> Inl (SyntaxError (''Unexpected token in JSON: '' @ text))
      | Some (v, r) \<Rightarrow>
          if skip_ws r = [] then Inr v
          else Inl (SyntaxError (''Unexpected non-whitespace character after JSON: '' @ text)))"

text \<open>\<^verbatim>\<open>JSON.parse(v)\<close> for a value of any type: it is converted to a string first.\<close>

definition JSON_parse_value :: "jsval \<Rightarrow> js_error + jsval" where
  "JSON_parse_value v = and_then (ToString v) JSON_parse"

subsection \<open>Values without numbers\<close>

text \<open>
  The values built from \<^verbatim>\<open>null\<close>, the booleans, strings, arrays and objects whose
  keys are distinct and none an array index. The session state of the declared type is
  such a value.
\<close>

fun plain :: "jsval \<Rightarrow> bool"
  and all_plain :: "jsval list \<Rightarrow> bool"
  and members_plain :: "(string \<times> jsval) list \<Rightarrow> bool" where
  "plain JUndefined = False"
| "plain JNull = True"
| "plain (JBool b) = True"
| "plain (JNum n) = False"
| "plain (JStr s) = True"
| "plain (JArr vs) = all_plain vs"
| "plain (JObj kvs) = (distinct (map fst kvs) \<and> members_plain kvs)"
| "all_plain [] = True"
| "all_plain (v # vs) = (plain v \<and> all_plain vs)"
| "members_plain [] = True"
| "members_plain ((k, v) # kvs) = (array_index k = None \<and> plain v \<and> members_plain kvs)"

text \<open>The characters a value can start with.\<close>

definition value_start :: "char \<Rightarrow> bool" where
  "value_start c = (is_digit c \<or> c \<in> set ''ntf-[{'' \<or> c = CHR 0x22)"

section \<open>The page: \<^verbatim>\<open>frontend/app/page.tsx\<close>\<close>

subsection \<open>State\<close>

text \<open>
  The eight state variables of \<^verbatim>\<open>Home\<close> (lines 21 to 29). The four that the
  persist effect writes are \<open>question\<close>, \<open>answer\<close>, \<open>claim\<close> and \<open>factResult\<close>;
  \<open>loading\<close> and \<open>status\<close> are the busy flag and the error slot of the query,
  \<open>factLoading\<close> and \<open>factError\<close> those of the fact check. \<open>status\<close> is always a
  string, empty when there is no error; \<open>factError\<close> is a string or \<^verbatim>\<open>null\<close>.
\<close>

record ui_state =
  question :: jsval
  answer :: jsval
  loading :: bool
  status :: string
  claim :: jsval
  factResult :: jsval
  factLoading :: bool
  factError :: "string option"

definition initial_state :: ui_state where
  "initial_state =
     \<lparr>question = JStr [], answer = JStr [], loading = False, status = [],
      claim = JStr [], factResult = JNull, factLoading = False, factError = None\<rparr>"

text \<open>The declared types (lines 7 to 18) and the values they denote.\<close>

record FactResult =
  verdict :: string
  reason :: string
  evidence :: "string list"

record PersistedState =
  p_question :: string
  p_answer :: string
  p_claim :: string
  p_factResult :: "FactResult option"

definition js_of_FactResult :: "FactResult \<Rightarrow> jsval" where
  "js_of_FactResult fr =
     JObj [(''verdict'', JStr (verdict fr)), (''reason'', JStr (reason fr)),
           (''evidence'', JArr (map JStr (evidence fr)))]"

definition js_of_factResult :: "FactResult option \<Rightarrow> jsval" where
  "js_of_factResult f = (case f of None \<Rightarrow> JNull | Some fr \<Rightarrow> js_of_FactResult fr)"

text \<open>The four persisted variables of a state.\<close>

definition persisted :: "ui_state \<Rightarrow> jsval \<times> jsval \<times> jsval \<times> jsval" where
  "persisted st = (question st, answer st, claim st, factResult st)"

definition js_of_PersistedState :: "PersistedState \<Rightarrow> jsval \<times> jsval \<times> jsval \<times> jsval" where
  "js_of_PersistedState s =
     (JStr (p_question s), JStr (p_answer s), JStr (p_claim s), js_of_factResult (p_factResult s))"

subsection \<open>Session storage (lines 33 to 60)\<close>

text \<open>
  \<^verbatim>\<open>window.localStorage\<close> is a map from keys to texts; \<open>None\<close> stands for a missing
  \<^verbatim>\<open>window\<close>.
\<close>

type_synonym storage = "string \<rightharpoonup> string"

definition STORAGE_KEY :: string where
  "STORAGE_KEY = ''rag-ui-state-v1''"

text \<open>
  The load effect. Everything from \<^verbatim>\<open>getItem\<close> on is inside \<^verbatim>\<open>try\<close>, and the
  \<^verbatim>\<open>catch\<close> is empty: a step that throws ends the effect and keeps what the setters
  before it have done.
\<close>

definition hydrate :: "storage option \<Rightarrow> ui_state \<Rightarrow> ui_state" where
  "hydrate window st =
     (case window of
        None \<Rightarrow> st
      | Some localStorage \<Rightarrow>
          (case localStorage STORAGE_KEY of
             None \<Rightarrow> st
           | Some raw \<Rightarrow>
               if raw = [] then st
               else (case JSON_parse raw of
                  Inl e \<Rightarrow> st
                | Inr saved \<Rightarrow>
                    (case get_prop saved ''question'' of
                       Inl e \<Rightarrow> st
                     | Inr q \<Rightarrow>
                         let st1 = st\<lparr>question := js_or q (JStr [])\<rparr>
                         in (case get_prop saved ''answer'' of
                               Inl e \<Rightarrow> st1
                             | Inr a \<Rightarrow>
                                 let st2 = st1\<lparr>answer := js_or a (JStr [])\<rparr>
                                 in (case get_prop saved ''claim'' of
                                       Inl e \<Rightarrow> st2
                                     | Inr c \<Rightarrow>
                                         let st3 = st2\<lparr>claim := js_or c (JStr [])\<rparr>
                                         in (case get_prop saved ''factResult'' of
                                               Inl e \<Rightarrow> st3
                                             | Inr f \<Rightarrow> st3\<lparr>factResult := js_or f JNull\<rparr>)))))))"

text \<open>
  The persist effect: the object \<^verbatim>\<open>stateToSave\<close> and the write of its text.
  \<^verbatim>\<open>setItem\<close> converts its second argument to a string.
\<close>

definition stateToSave :: "ui_state \<Rightarrow> jsval" where
  "stateToSave st =
     JObj [(''question'', question st), (''answer'', answer st), (''claim'', claim st),
           (''factResult'', factResult st)]"

definition persist :: "ui_state \<Rightarrow> storage option \<Rightarrow> storage option" where
  "persist st window =
     (case window of
        None \<Rightarrow> None
      | Some localStorage \<Rightarrow>
          (case ToString (JSON_stringify (stateToSave st)) of
             Inl e \<Rightarrow> Some localStorage
           | Inr text \<Rightarrow> Some (localStorage(STORAGE_KEY \<mapsto> text))))"

subsection \<open>Requests\<close>

text \<open>
  Each handler is modelled in two steps: what it does before the request is sent
  (\<open>_begin\<close>), and what it does from the response on (\<open>_settle\<close>), applied to the
  state as it is at that moment. The handler itself runs the two steps one after the
  other, with no other event in between.

  A call of \<^verbatim>\<open>fetch\<close> followed by \<^verbatim>\<open>res.json()\<close> ends in one of three ways:
  \<^verbatim>\<open>fetch\<close> rejects (no response arrived); a response arrived and its body is not
  JSON, so \<^verbatim>\<open>res.json()\<close> rejects; a response arrived and its body is the JSON value
  \<open>data\<close>. The flag is \<^verbatim>\<open>res.ok\<close>: the status is in the range 200 to 299.
\<close>

datatype fetch_outcome =
    Rejected js_error
  | Responded bool "js_error + jsval"

text \<open>
  The calls that fail: a network error, a body that is not JSON, a status outside the
  range 200 to 299.
\<close>

fun failing :: "fetch_outcome \<Rightarrow> bool" where
  "failing (Rejected e) = True"
| "failing (Responded ok (Inl e)) = True"
| "failing (Responded ok (Inr data)) = (\<not> ok)"

text \<open>The body of a request is the value passed as \<^verbatim>\<open>body\<close>.\<close>

record request =
  url :: string
  verb :: string
  content_type :: string
  body :: jsval

text \<open>
  \<^verbatim>\<open>new Error(m)\<close>: the message is \<^verbatim>\<open>String(m)\<close>, and empty without \<open>m\<close>. When
  the conversion throws, no error object is made.
\<close>

definition new_Error :: "jsval \<Rightarrow> js_error + js_error" where
  "new_Error m =
     (if m = JUndefined then Inr (Error [])
      else and_then (ToString m) (\<lambda>text. Inr (Error text)))"

text \<open>Lines 76 to 78 and 105 to 107: \<^verbatim>\<open>throw new Error(data.detail || JSON.stringify(data))\<close>.\<close>

definition throw_failure :: "jsval \<Rightarrow> js_error + jsval" where
  "throw_failure data =
     and_then (get_prop data ''detail'') (\<lambda>detail.
     and_then (new_Error (js_or detail (JSON_stringify data))) (\<lambda>error.
       Inl error))"

text \<open>The cross mark U+274C that starts both error messages, as its UTF-8 bytes.\<close>

definition cross_mark :: string where
  "cross_mark = [CHR 0xE2, CHR 0x9D, CHR 0x8C]"

subsection \<open>\<^verbatim>\<open>handleQuery\<close> (lines 62 to 85)\<close>

definition query_failed :: string where
  "query_failed = cross_mark @ '' Query failed: ''"

definition query_request :: "jsval \<Rightarrow> request" where
  "query_request q =
     \<lparr>url = ''http://localhost:8000/query'', verb = ''POST'',
      content_type = ''application/json'',
      body = JSON_stringify (JObj [(''question'', q)])\<rparr>"

text \<open>Lines 65 to 67, before the request is sent.\<close>

definition handleQuery_begin :: "ui_state \<Rightarrow> ui_state" where
  "handleQuery_begin st = st\<lparr>loading := True, answer := JStr [], status := []\<rparr>"

text \<open>
  The \<^verbatim>\<open>try\<close> block from the response on (lines 75 to 80): the value handed to
  \<^verbatim>\<open>setAnswer\<close>, or the error thrown.
\<close>

definition handleQuery_try :: "fetch_outcome \<Rightarrow> js_error + jsval" where
  "handleQuery_try outcome =
     (case outcome of
        Rejected e \<Rightarrow> Inl e
      | Responded ok json \<Rightarrow>
          and_then json (\<lambda>data.
            if \<not> ok then throw_failure data
            else and_then (get_prop data ''answer'')
                   (\<lambda>a. Inr (js_coalesce a (JStr ''No answer returned.'')))))"

text \<open>Lines 75 to 84, applied to the state as it is when the response arrives.\<close>

definition handleQuery_settle :: "fetch_outcome \<Rightarrow> ui_state \<Rightarrow> ui_state" where
  "handleQuery_settle outcome st =
     (case handleQuery_try outcome of
        Inr a \<Rightarrow> st\<lparr>answer := a\<rparr>
      | Inl e \<Rightarrow> st\<lparr>status := query_failed @ message e\<rparr>)\<lparr>loading := False\<rparr>"

text \<open>
  The whole handler against a backend that answers each request with an outcome: the
  final state and the requests sent, or the error that escapes (line 63 is outside the
  \<^verbatim>\<open>try\<close>).
\<close>

definition handleQuery :: "(request \<Rightarrow> fetch_outcome) \<Rightarrow> ui_state \<Rightarrow> js_error + ui_state \<times> request list" where
  "handleQuery backend st =
     and_then (call_trim ''question'' (question st)) (\<lambda>trimmed.
       if trimmed = [] then Inr (st, [])
       else let req = query_request (question st)
            in Inr (handleQuery_settle (backend req) (handleQuery_begin st), [req]))"

subsection \<open>\<^verbatim>\<open>handleFactCheck\<close> (lines 87 to 121)\<close>

definition fact_check_failed :: string where
  "fact_check_failed = cross_mark @ '' Fact check failed: ''"

definition fact_check_request :: "jsval \<Rightarrow> request" where
  "fact_check_request c =
     \<lparr>url = ''http://localhost:8000/fact_check'', verb = ''POST'',
      content_type = ''application/json'',
      body = JSON_stringify (JObj [(''claim'', c), (''namespace'', JStr ''documents'')])\<rparr>"

text \<open>Lines 90 to 92.\<close>

definition handleFactCheck_begin :: "ui_state \<Rightarrow> ui_state" where
  "handleFactCheck_begin st = st\<lparr>factLoading := True, factError := None, factResult := JNull\<rparr>"

text \<open>Lines 104 to 115: the object handed to \<^verbatim>\<open>setFactResult\<close>, or the error thrown.\<close>

definition handleFactCheck_try :: "fetch_outcome \<Rightarrow> js_error + jsval" where
  "handleFactCheck_try outcome =
     (case outcome of
        Rejected e \<Rightarrow> Inl e
      | Responded ok json \<Rightarrow>
          and_then json (\<lambda>data.
            if \<not> ok then throw_failure data
            else and_then (get_prop data ''result'') (\<lambda>result.
                 and_then (JSON_parse_value result) (\<lambda>parsed.
                 and_then (get_prop parsed ''verdict'') (\<lambda>v.
                 and_then (get_prop parsed ''reason'') (\<lambda>r.
                 and_then (get_prop parsed ''evidence'') (\<lambda>ev.
                   Inr (JObj [(''verdict'', v), (''reason'', r),
                              (''evidence'', js_or ev (JArr []))]))))))))"

text \<open>
  The fact check fails in one more way: the status is in the range 200 to 299 and the
  \<^verbatim>\<open>result\<close> of the body is not JSON, so the second \<^verbatim>\<open>JSON.parse\<close> (line 109)
  throws.
\<close>

fun result_not_json :: "fetch_outcome \<Rightarrow> bool" where
  "result_not_json (Responded True (Inr data)) =
     (case get_prop data ''result'' of
        Inl e \<Rightarrow> False
      | Inr result \<Rightarrow> isl (JSON_parse_value result))"
| "result_not_json outcome = False"

text \<open>Lines 104 to 120; the \<^verbatim>\<open>finally\<close> block runs on both paths.\<close>

definition handleFactCheck_settle :: "fetch_outcome \<Rightarrow> ui_state \<Rightarrow> ui_state" where
  "handleFactCheck_settle outcome st =
     (case handleFactCheck_try outcome of
        Inr fr \<Rightarrow> st\<lparr>factResult := fr\<rparr>
      | Inl e \<Rightarrow> st\<lparr>factError := Some (fact_check_failed @ message e)\<rparr>)\<lparr>factLoading := False\<rparr>"

definition handleFactCheck :: "(request \<Rightarrow> fetch_outcome) \<Rightarrow> ui_state \<Rightarrow> js_error + ui_state \<times> request list" where
  "handleFactCheck backend st =
     and_then (call_trim ''claim'' (claim st)) (\<lambda>trimmed.
       if trimmed = [] then Inr (st, [])
       else let req = fact_check_request (claim st)
            in Inr (handleFactCheck_settle (backend req) (handleFactCheck_begin st), [req]))"

subsection \<open>The buttons (lines 193 and 256)\<close>

text \<open>
  Each render evaluates \<^verbatim>\<open>!question.trim() || loading\<close> and
  \<^verbatim>\<open>!claim.trim() || factLoading\<close> for the \<^verbatim>\<open>disabled\<close> attribute of the two buttons;
  an error thrown there ends the render.
\<close>

definition query_disabled :: "ui_state \<Rightarrow> js_error + bool" where
  "query_disabled st =
     and_then (call_trim ''question'' (question st)) (\<lambda>trimmed. Inr (trimmed = [] \<or> loading st))"

definition fact_check_disabled :: "ui_state \<Rightarrow> js_error + bool" where
  "fact_check_disabled st =
     and_then (call_trim ''claim'' (claim st)) (\<lambda>trimmed. Inr (trimmed = [] \<or> factLoading st))"

subsection \<open>The class of the verdict badge (lines 282 to 291)\<close>

definition positive_class :: string where
  "positive_class = ''rounded-full bg-green-900/40 px-3 py-1 text-xs font-semibold text-green-300''"

definition negative_class :: string where
  "negative_class = ''rounded-full bg-red-900/40 px-3 py-1 text-xs font-semibold text-red-300''"

definition neutral_class :: string where
  "neutral_class = ''rounded-full bg-yellow-900/40 px-3 py-1 text-xs font-semibold text-yellow-300''"

text \<open>\<^verbatim>\<open>===\<close> against a string literal holds of that string only.\<close>

definition verdict_className :: "jsval \<Rightarrow> string" where
  "verdict_className v =
     (if v = JStr ''SUPPORTED'' then positive_class
      else if v = JStr ''REFUTED'' then negative_class
      else neutral_class)"

section \<open>Lemmas about the platform functions\<close>

subsection \<open>White space\<close>

text \<open>
  No white-space sequence starts another, so a text made of white-space sequences
  is stripped to nothing.
\<close>

lemma white_space_prefix_free:
  "a \<in> set white_space \<Longrightarrow> b \<in> set white_space \<Longrightarrow> prefix a b \<Longrightarrow> a = b"
proof -
  have "\<forall>a\<in>set white_space. \<forall>b\<in>set white_space. prefix a b \<longrightarrow> a = b"
    by code_simp
  then show "a \<in> set white_space \<Longrightarrow> b \<in> set white_space \<Longrightarrow> prefix a b \<Longrightarrow> a = b"
    by blast
qed

lemma white_space_nonempty: "w \<in> set white_space \<Longrightarrow> w \<noteq> []"
  by (auto simp: white_space_def)

lemma leading_white_space:
  assumes "w \<in> set white_space"
  shows "leading white_space (w @ r) = Some w"
proof -
  have "\<exists>x. leading white_space (w @ r) = Some x"
    using assms white_space_nonempty[OF assms]
    by (cases "leading white_space (w @ r)") (auto simp: leading_def find_None_iff)
  then obtain x where x: "leading white_space (w @ r) = Some x" ..
  then have "x \<in> set white_space" and "prefix x (w @ r)"
    by (auto simp: leading_def find_Some_iff)
  then have "prefix x w \<or> prefix w x"
    by (meson prefix_same_cases prefixI)
  then have "x = w"
    using white_space_prefix_free \<open>x \<in> set white_space\<close> assms by blast
  then show ?thesis using x by simp
qed

lemma strip_Nil: "strip table [] = []"
proof -
  have "leading table [] = None"
    by (simp add: leading_def find_None_iff)
  then show ?thesis
    by (subst strip.simps) simp
qed

lemma strip_blank: "set ws \<subseteq> set white_space \<Longrightarrow> strip white_space (concat ws) = []"
proof (induction ws)
  case Nil
  then show ?case by (simp add: strip_Nil)
next
  case (Cons w ws)
  then show ?case by (subst strip.simps) (simp add: leading_white_space)
qed

lemma trim_blank: "set ws \<subseteq> set white_space \<Longrightarrow> trim (concat ws) = []"
  by (simp add: trim_def trimStart_def trimEnd_def strip_blank strip_Nil)

subsection \<open>Strings: reading back what was quoted\<close>

lemma parse_chars_Nil: "parse_chars [] = None"
  by (subst parse_chars.simps) simp

lemma parse_chars_Cons:
  "parse_chars (c # r) =
     (if c = CHR 0x22 then Some ([], r)
      else if c = CHR 0x5C
        then (case escape r of
                None \<Rightarrow> None
              | Some (bs, r1) \<Rightarrow>
                  (case parse_chars r1 of None \<Rightarrow> None | Some (t, r2) \<Rightarrow> Some (bs @ t, r2)))
      else if of_char c < (32::nat) then None
      else (case parse_chars r of None \<Rightarrow> None | Some (t, r2) \<Rightarrow> Some (c # t, r2)))"
  by (subst parse_chars.simps) simp

lemma hex_val_hex_digit: "d < 16 \<Longrightarrow> hex_val (hex_digit d) = Some d"
  by (simp add: hex_val_def hex_digit_def Let_def)

lemma control_escape:
  assumes "of_char c < (32::nat)"
  shows "unicode_escape (CHR ''0'' # CHR ''0'' # hex_digit (of_char c div 16) # hex_digit (of_char c mod 16) # r) = Some ([c], r)"
proof -
  let ?n = "of_char c :: nat"
  have z: "hex_val (CHR ''0'') = Some 0" by (simp add: hex_val_def)
  have h: "hex_val (hex_digit (?n div 16)) = Some (?n div 16)" "hex_val (hex_digit (?n mod 16)) = Some (?n mod 16)"
    using assms by (simp_all add: hex_val_hex_digit)
  have "hex4 (CHR ''0'' # CHR ''0'' # hex_digit (?n div 16) # hex_digit (?n mod 16) # r) = Some (?n, r)"
    by (simp add: hex4_def z h)
  moreover have "utf8 ?n = [c]" using assms by (simp add: utf8_def)
  ultimately show ?thesis using assms by (simp add: unicode_escape_def)
qed

lemma quote_char_control:
  assumes "of_char c < (32::nat)" "c \<noteq> CHR 0x08" "c \<noteq> CHR 0x0C" "c \<noteq> CHR 0x0A" "c \<noteq> CHR 0x0D" "c \<noteq> CHR 0x09"
  shows "quote_char c = [CHR 0x5C, CHR ''u'', CHR ''0'', CHR ''0'',
              hex_digit (of_char c div 16), hex_digit (of_char c mod 16)]"
proof -
  have "c \<noteq> CHR 0x22" "c \<noteq> CHR 0x5C" using assms(1) by auto
  then show ?thesis unfolding quote_char_def using assms by simp
qed

lemma parse_escaped:
  assumes "escape s = Some ([c], r)"
  shows "parse_chars (CHR 0x5C # s) =
     (case parse_chars r of None \<Rightarrow> None | Some (t, r2) \<Rightarrow> Some (c # t, r2))"
  by (subst parse_chars_Cons) (simp add: assms split: option.splits)

lemma parse_quote_char:
  "parse_chars (quote_char c @ r) =
     (case parse_chars r of None \<Rightarrow> None | Some (t, r2) \<Rightarrow> Some (c # t, r2))"
proof -
  consider (quote) "c = CHR 0x22" | (backslash) "c = CHR 0x5C" | (b) "c = CHR 0x08"
    | (f) "c = CHR 0x0C" | (n) "c = CHR 0x0A" | (r) "c = CHR 0x0D" | (t) "c = CHR 0x09"
    | (control) "of_char c < (32::nat)" "c \<noteq> CHR 0x08" "c \<noteq> CHR 0x0C" "c \<noteq> CHR 0x0A"
        "c \<noteq> CHR 0x0D" "c \<noteq> CHR 0x09"
    | (plain) "\<not> of_char c < (32::nat)" "c \<noteq> CHR 0x22" "c \<noteq> CHR 0x5C"
    by blast
  then show ?thesis
  proof cases
    case quote
    show ?thesis unfolding quote by (simp add: quote_char_def parse_escaped escape_def)
  next
    case backslash
    show ?thesis unfolding backslash by (simp add: quote_char_def parse_escaped escape_def)
  next
    case b
    show ?thesis unfolding b by (simp add: quote_char_def parse_escaped escape_def)
  next
    case f
    show ?thesis unfolding f by (simp add: quote_char_def parse_escaped escape_def)
  next
    case n
    show ?thesis unfolding n by (simp add: quote_char_def parse_escaped escape_def)
  next
    case r
    show ?thesis unfolding r by (simp add: quote_char_def parse_escaped escape_def)
  next
    case t
    show ?thesis unfolding t by (simp add: quote_char_def parse_escaped escape_def)
  next
    case control
    have "escape (CHR ''u'' # CHR ''0'' # CHR ''0'' # hex_digit (of_char c div 16) # hex_digit (of_char c mod 16) # r) = Some ([c], r)"
      using control(1) by (simp add: escape_def control_escape)
    then show ?thesis
      by (simp add: quote_char_control[OF control] parse_escaped[where r = r])
  next
    case plain
    have "c \<noteq> CHR 0x08" "c \<noteq> CHR 0x0C" "c \<noteq> CHR 0x0A" "c \<noteq> CHR 0x0D" "c \<noteq> CHR 0x09"
      using plain(1) by auto
    then have "quote_char c = [c]"
      using plain by (simp add: quote_char_def)
    then show ?thesis
      using plain by (simp add: parse_chars_Cons)
  qed
qed

lemma parse_raw:
  assumes "\<not> of_char c < (32::nat)" "c \<noteq> CHR 0x22" "c \<noteq> CHR 0x5C"
  shows "parse_chars (c # r) =
     (case parse_chars r of None \<Rightarrow> None | Some (t, r2) \<Rightarrow> Some (c # t, r2))"
  using assms by (simp add: parse_chars_Cons)

lemma high_byte:
  assumes "0x80 \<le> (of_char c :: nat)"
  shows "\<not> of_char c < (32::nat)" "c \<noteq> CHR 0x22" "c \<noteq> CHR 0x5C"
  using assms by auto

lemma parse_high:
  assumes "0x80 \<le> (of_char c :: nat)"
  shows "parse_chars (c # r) =
     (case parse_chars r of None \<Rightarrow> None | Some (t, r2) \<Rightarrow> Some (c # t, r2))"
  by (rule parse_raw[OF high_byte[OF assms]])

text \<open>A surrogate is three bytes from U+0080 on, and its escape reads back as them.\<close>

lemma surrogate_bytes:
  assumes "surrogate s = Some (u, r)"
  obtains b c where "s = CHR 0xED # b # c # r"
    and "0xA0 \<le> (of_char b :: nat)" "(of_char b :: nat) \<le> 0xBF"
    and "0x80 \<le> (of_char c :: nat)" "(of_char c :: nat) \<le> 0xBF"
    and "u = 0xD000 + (of_char b mod 64) * 64 + of_char c mod 64"
  using assms by (auto simp: surrogate_def split: list.splits if_splits)

lemma surrogate_range:
  assumes "surrogate s = Some (u, r)"
  shows "0xD800 \<le> u" "u < 0xE000"
proof -
  obtain b c where b: "0xA0 \<le> (of_char b :: nat)" "(of_char b :: nat) \<le> 0xBF"
    and u: "u = 0xD000 + (of_char b mod 64) * 64 + of_char c mod 64"
    using assms by (rule surrogate_bytes)
  define B where "B = (of_char b :: nat)"
  define C where "C = (of_char c :: nat)"
  define x where "x = B - 160"
  have "B = 2 * 64 + (32 + x)" and x: "x < 32"
    using b unfolding B_def x_def by simp_all
  then have "B mod 64 = 32 + x"
    using mod_mult_self3[of 2 64 "32 + x"] by simp
  moreover have "C mod 64 < 64" by simp
  ultimately show "0xD800 \<le> u" "u < 0xE000"
    unfolding u B_def[symmetric] C_def[symmetric] using x by simp_all
qed

lemma quot_rem:
  fixes q n r :: nat
  assumes "r < n"
  shows "(q * n + r) div n = q" "(q * n + r) mod n = r"
  using assms by simp_all

lemma utf8_surrogate:
  assumes "0xA0 \<le> (of_char b :: nat)" "(of_char b :: nat) \<le> 0xBF"
    and "0x80 \<le> (of_char c :: nat)" "(of_char c :: nat) \<le> 0xBF"
  shows "utf8 (0xD000 + (of_char b mod 64) * 64 + of_char c mod 64) = [CHR 0xED, b, c]"
proof -
  define B where "B = (of_char b :: nat)"
  define C where "C = (of_char c :: nat)"
  define x where "x = B - 160"
  define y where "y = C - 128"
  have B: "B = 2 * 64 + (32 + x)" and C: "C = 2 * 64 + y" and xy: "x < 32" "y < 64"
    using assms unfolding B_def C_def x_def y_def by simp_all
  have bm: "B mod 64 = 32 + x"
    unfolding B using xy(1) by (intro quot_rem(2)) simp
  have cm: "C mod 64 = y"
    unfolding C using xy(2) by (intro quot_rem(2)) simp
  define u where "u = 0xD000 + (B mod 64) * 64 + C mod 64"
  have u: "u = 0xD800 + x * 64 + y"
    unfolding u_def bm cm by simp
  have r: "\<not> u < 0x80" "\<not> u < 0x800" "u < 0x10000"
    unfolding u using xy by simp_all
  have "u = 13 * 4096 + (2048 + x * 64 + y)"
    unfolding u by simp
  moreover have "2048 + x * 64 + y < 4096"
    using xy by simp
  ultimately have d1: "u div 4096 = 13"
    using quot_rem(1)[of "2048 + x * 64 + y" 4096 13] by simp
  have u64: "u = (864 + x) * 64 + y"
    unfolding u by simp
  have d64: "u div 64 = 864 + x" and d3: "u mod 64 = y"
    unfolding u64 using xy(2) by (simp_all only: quot_rem)
  have "864 + x = 13 * 64 + (32 + x)" by simp
  moreover have "32 + x < 64" using xy(1) by simp
  ultimately have "(864 + x) mod 64 = 32 + x"
    using quot_rem(2)[of "32 + x" 64 13] by simp
  then have d2: "u div 64 mod 64 = 32 + x"
    by (simp only: d64)
  have c1: "char_of (0xE0 + (13::nat)) = CHR 0xED"
    by code_simp
  have "0x80 + (32 + x) = B" "0x80 + y = C"
    unfolding B C by simp_all
  then have c2: "char_of (0x80 + (32 + x)) = b" "char_of (0x80 + y) = c"
    unfolding B_def C_def by simp_all
  have "utf8 u = [CHR 0xED, b, c]"
    unfolding utf8_def using r by (simp only: if_False if_True d1 d2 d3 c1 c2)
  then show ?thesis by (simp only: u_def B_def C_def)
qed

lemma hex4_digits:
  assumes "u < 65536"
  shows "hex4 (hex_digit (u div 4096) # hex_digit (u div 256 mod 16) # hex_digit (u div 16 mod 16)
               # hex_digit (u mod 16) # r) = Some (u, r)"
proof -
  have "u div 4096 < 16" using assms by simp
  then have h: "hex_val (hex_digit (u div 4096)) = Some (u div 4096)"
    "hex_val (hex_digit (u div 256 mod 16)) = Some (u div 256 mod 16)"
    "hex_val (hex_digit (u div 16 mod 16)) = Some (u div 16 mod 16)"
    "hex_val (hex_digit (u mod 16)) = Some (u mod 16)"
    by (simp_all add: hex_val_hex_digit)
  have e1: "u div 256 = u div 16 div 16"
    by (simp add: div_mult2_eq[symmetric])
  have e2: "u div 4096 = u div 16 div 16 div 16"
    by (simp add: div_mult2_eq[symmetric])
  have "((u div 4096 * 16 + u div 256 mod 16) * 16 + u div 16 mod 16) * 16 + u mod 16 = u"
    by (simp only: e1 e2 div_mult_mod_eq)
  then show ?thesis by (simp add: hex4_def h)
qed

lemma quote_chars_Nil: "quote_chars [] = []"
  by (subst quote_chars.simps) simp

lemma pair_at_bytes:
  assumes "pair_at s"
  obtains b c d e r where "s = CHR 0xED # b # c # CHR 0xED # d # e # r"
    and "0x80 \<le> (of_char b :: nat)" "0x80 \<le> (of_char c :: nat)"
    and "0x80 \<le> (of_char d :: nat)" "0x80 \<le> (of_char e :: nat)"
proof -
  obtain hi r1 lo r2 where h: "surrogate s = Some (hi, r1)" and l: "surrogate r1 = Some (lo, r2)"
    using assms by (auto simp: pair_at_def split: option.splits)
  obtain b c where s: "s = CHR 0xED # b # c # r1"
    and b: "0xA0 \<le> (of_char b :: nat)" and c: "0x80 \<le> (of_char c :: nat)"
    using h by (rule surrogate_bytes)
  obtain d e where r1: "r1 = CHR 0xED # d # e # r2"
    and d: "0xA0 \<le> (of_char d :: nat)" and e: "0x80 \<le> (of_char e :: nat)"
    using l by (rule surrogate_bytes)
  have "s = CHR 0xED # b # c # CHR 0xED # d # e # r2" using s r1 by simp
  moreover have "0x80 \<le> (of_char b :: nat)" "0x80 \<le> (of_char d :: nat)" using b d by simp_all
  ultimately show ?thesis using that c e by blast
qed

lemma quote_chars_Cons:
  "quote_chars (c # r) =
     (if pair_at (c # r) then take 6 (c # r) @ quote_chars (drop 6 (c # r))
      else (case surrogate (c # r) of
              Some (u, r1) \<Rightarrow> unicode_escape_of u @ quote_chars r1
            | None \<Rightarrow> quote_char c @ quote_chars r))"
  by (subst quote_chars.simps) simp

lemma quote_chars_pair:
  assumes "pair_at s"
  shows "quote_chars s = take 6 s @ quote_chars (drop 6 s)"
proof -
  obtain c r where s: "s = c # r" using assms by (auto elim: pair_at_bytes)
  show ?thesis unfolding s using assms[unfolded s] by (simp only: quote_chars_Cons if_True)
qed

lemma quote_chars_surrogate:
  assumes "surrogate s = Some (u, r1)" and "\<not> pair_at s"
  shows "quote_chars s = unicode_escape_of u @ quote_chars r1"
proof -
  obtain c r where s: "s = c # r" using assms(1) by (auto elim: surrogate_bytes)
  show ?thesis unfolding s using assms[unfolded s]
    by (simp only: quote_chars_Cons if_False option.case prod.case)
qed

lemma pair_at_surrogate: "pair_at s \<Longrightarrow> surrogate s \<noteq> None"
  by (auto simp: pair_at_def split: option.splits)

lemma quote_chars_plain:
  assumes "surrogate (c # r) = None"
  shows "quote_chars (c # r) = quote_char c @ quote_chars r"
proof -
  have "\<not> pair_at (c # r)" using pair_at_surrogate assms by blast
  then show ?thesis using assms by (simp only: quote_chars_Cons if_False option.case)
qed

text \<open>
  An escape \<^verbatim>\<open>\u\<close> at the start of what \<open>quote_chars\<close> writes is that of a control
  character or that of the surrogate the string starts with.
\<close>

lemma quote_char_escape:
  assumes "quote_char c @ t = CHR 0x5C # CHR ''u'' # t1" and "hex4 t1 = Some (lo, r2)"
  shows "lo < 0x20"
proof -
  consider (quote) "c = CHR 0x22" | (backslash) "c = CHR 0x5C" | (b) "c = CHR 0x08"
    | (f) "c = CHR 0x0C" | (n) "c = CHR 0x0A" | (r) "c = CHR 0x0D" | (t) "c = CHR 0x09"
    | (control) "of_char c < (32::nat)" "c \<noteq> CHR 0x08" "c \<noteq> CHR 0x0C" "c \<noteq> CHR 0x0A"
        "c \<noteq> CHR 0x0D" "c \<noteq> CHR 0x09"
    | (plain) "\<not> of_char c < (32::nat)" "c \<noteq> CHR 0x22" "c \<noteq> CHR 0x5C"
    by blast
  then show ?thesis
  proof cases
    case quote
    then show ?thesis using assms(1) by (simp add: quote_char_def)
  next
    case backslash
    then show ?thesis using assms(1) by (simp add: quote_char_def)
  next
    case b
    then show ?thesis using assms(1) by (simp add: quote_char_def)
  next
    case f
    then show ?thesis using assms(1) by (simp add: quote_char_def)
  next
    case n
    then show ?thesis using assms(1) by (simp add: quote_char_def)
  next
    case r
    then show ?thesis using assms(1) by (simp add: quote_char_def)
  next
    case t
    then show ?thesis using assms(1) by (simp add: quote_char_def)
  next
    case control
    let ?n = "of_char c :: nat"
    have t1: "t1 = CHR ''0'' # CHR ''0'' # hex_digit (?n div 16) # hex_digit (?n mod 16) # t"
      using assms(1) by (simp add: quote_char_control[OF control])
    have z: "hex_val (CHR ''0'') = Some 0" by (simp add: hex_val_def)
    have h: "hex_val (hex_digit (?n div 16)) = Some (?n div 16)" "hex_val (hex_digit (?n mod 16)) = Some (?n mod 16)"
      using control(1) by (simp_all add: hex_val_hex_digit)
    have "hex4 t1 = Some (?n, t)"
      unfolding t1 by (simp add: hex4_def z h)
    then show ?thesis using assms(2) control(1) by simp
  next
    case plain
    have "c \<noteq> CHR 0x08" "c \<noteq> CHR 0x0C" "c \<noteq> CHR 0x0A" "c \<noteq> CHR 0x0D" "c \<noteq> CHR 0x09"
      using plain(1) by auto
    then have "quote_char c = [c]"
      using plain by (simp add: quote_char_def)
    then show ?thesis using assms(1) plain(3) by simp
  qed
qed

lemma quote_chars_escape:
  assumes "quote_chars s @ CHR 0x22 # r = CHR 0x5C # CHR ''u'' # t1" and "hex4 t1 = Some (lo, r2)"
  shows "lo < 0x20 \<or> (\<exists>r1. surrogate s = Some (lo, r1))"
proof (cases s)
  case Nil
  then show ?thesis using assms(1) by (simp add: quote_chars_Nil)
next
  case (Cons c cs)
  show ?thesis
  proof (cases "pair_at s")
    case True
    then obtain b c d e r0 where s: "s = CHR 0xED # b # c # CHR 0xED # d # e # r0"
      by (rule pair_at_bytes)
    have "quote_chars s = take 6 s @ quote_chars (drop 6 s)"
      using True by (rule quote_chars_pair)
    then have "quote_chars s @ CHR 0x22 # r = CHR 0xED # b # c # CHR 0xED # d # e # quote_chars r0 @ CHR 0x22 # r"
      unfolding s by simp
    then have "CHR 0xED = CHR 0x5C" using assms(1) by simp
    then show ?thesis by simp
  next
    case np: False
    show ?thesis
    proof (cases "surrogate s")
      case None
      then have q: "quote_char c @ (quote_chars cs @ CHR 0x22 # r) = CHR 0x5C # CHR ''u'' # t1"
        using assms(1) Cons by (simp add: quote_chars_plain)
      show ?thesis using quote_char_escape[OF q assms(2)] by simp
    next
      case (Some a)
      then obtain u r1 where su: "surrogate s = Some (u, r1)" by (cases a) auto
      have "u < 65536" using surrogate_range(2)[OF su] by simp
      then have "hex4 (hex_digit (u div 4096) # hex_digit (u div 256 mod 16) # hex_digit (u div 16 mod 16)
               # hex_digit (u mod 16) # quote_chars r1 @ CHR 0x22 # r) = Some (u, quote_chars r1 @ CHR 0x22 # r)"
        by (rule hex4_digits)
      moreover have "t1 = hex_digit (u div 4096) # hex_digit (u div 256 mod 16) # hex_digit (u div 16 mod 16)
               # hex_digit (u mod 16) # quote_chars r1 @ CHR 0x22 # r"
        using assms(1) by (simp add: quote_chars_surrogate[OF su np] unicode_escape_of_def)
      ultimately have "lo = u" using assms(2) by simp
      then show ?thesis using su by simp
    qed
  qed
qed

lemma unicode_escape_lone:
  assumes su: "surrogate s = Some (u, r1)" and np: "\<not> pair_at s"
  shows "unicode_escape (hex_digit (u div 4096) # hex_digit (u div 256 mod 16) # hex_digit (u div 16 mod 16)
               # hex_digit (u mod 16) # quote_chars r1 @ CHR 0x22 # r) =
         Some (take 3 s, quote_chars r1 @ CHR 0x22 # r)"
proof -
  let ?rest = "quote_chars r1 @ CHR 0x22 # r"
  obtain b c where s: "s = CHR 0xED # b # c # r1"
    and b: "0xA0 \<le> (of_char b :: nat)" "(of_char b :: nat) \<le> 0xBF"
    and c: "0x80 \<le> (of_char c :: nat)" "(of_char c :: nat) \<le> 0xBF"
    and u: "u = 0xD000 + (of_char b mod 64) * 64 + of_char c mod 64"
    using su by (rule surrogate_bytes)
  have bytes: "utf8 u = take 3 s"
    unfolding u s using utf8_surrogate[OF b c] by simp
  have "u < 65536" using surrogate_range(2)[OF su] by simp
  then have h: "hex4 (hex_digit (u div 4096) # hex_digit (u div 256 mod 16) # hex_digit (u div 16 mod 16)
               # hex_digit (u mod 16) # ?rest) = Some (u, ?rest)"
    by (rule hex4_digits)
  have lone: "\<not> (0xDC00 \<le> lo \<and> lo < 0xE000)"
    if p: "u < 0xDC00" "prefix [CHR 0x5C, CHR ''u''] ?rest" and l: "hex4 (drop 2 ?rest) = Some (lo, r2)"
    for lo r2
  proof
    assume low: "0xDC00 \<le> lo \<and> lo < 0xE000"
    obtain t1 where t1: "?rest = CHR 0x5C # CHR ''u'' # t1"
      using p(2) by (auto simp: prefix_def)
    then have "hex4 t1 = Some (lo, r2)" using l by simp
    then have "lo < 0x20 \<or> (\<exists>r3. surrogate r1 = Some (lo, r3))"
      using quote_chars_escape[OF t1] by simp
    then obtain r3 where "surrogate r1 = Some (lo, r3)" using low by auto
    then have "pair_at s" using su p(1) low by (simp add: pair_at_def)
    then show False using np by simp
  qed
  show ?thesis
    unfolding unicode_escape_def using h lone bytes
    by (auto split: option.splits)
qed

lemma parse_chars_quoted: "parse_chars (quote_chars s @ CHR 0x22 # r) = Some (s, r)"
proof (induction s arbitrary: r rule: length_induct)
  case (1 s)
  show ?case
  proof (cases s)
    case Nil
    then show ?thesis by (simp add: quote_chars_Nil parse_chars_Cons)
  next
    case (Cons c cs)
    show ?thesis
    proof (cases "pair_at s")
      case True
      then obtain b c d e r0 where s: "s = CHR 0xED # b # c # CHR 0xED # d # e # r0"
        and h: "0x80 \<le> (of_char b :: nat)" "0x80 \<le> (of_char c :: nat)"
          "0x80 \<le> (of_char d :: nat)" "0x80 \<le> (of_char e :: nat)"
        by (rule pair_at_bytes)
      have ed: "0x80 \<le> (of_char (CHR 0xED) :: nat)" by simp
      have "length r0 < length s" using s by simp
      then have ih: "parse_chars (quote_chars r0 @ CHR 0x22 # r) = Some (r0, r)"
        using 1 by blast
      have "quote_chars s = CHR 0xED # b # c # CHR 0xED # d # e # quote_chars r0"
        using quote_chars_pair[OF True] s by simp
      then show ?thesis
        using ih s by (simp add: parse_high[OF ed] parse_high[OF h(1)] parse_high[OF h(2)]
            parse_high[OF h(3)] parse_high[OF h(4)])
    next
      case np: False
      show ?thesis
      proof (cases "surrogate s")
        case None
        have ih: "parse_chars (quote_chars cs @ CHR 0x22 # r) = Some (cs, r)"
          using 1 Cons by simp
        have "quote_chars s = quote_char c @ quote_chars cs"
          using None Cons by (simp add: quote_chars_plain)
        then show ?thesis using ih Cons by (simp add: parse_quote_char)
      next
        case (Some a)
        then obtain u r1 where su: "surrogate s = Some (u, r1)" by (cases a) auto
        obtain b c where s: "s = CHR 0xED # b # c # r1"
          using su by (rule surrogate_bytes)
        have "length r1 < length s" using s by simp
        then have ih: "parse_chars (quote_chars r1 @ CHR 0x22 # r) = Some (r1, r)"
          using 1 by blast
        have e: "escape (CHR ''u'' # hex_digit (u div 4096) # hex_digit (u div 256 mod 16)
                  # hex_digit (u div 16 mod 16) # hex_digit (u mod 16) # quote_chars r1 @ CHR 0x22 # r) =
               Some (take 3 s, quote_chars r1 @ CHR 0x22 # r)"
          using unicode_escape_lone[OF su np] by (simp add: escape_def)
        have "parse_chars (quote_chars s @ CHR 0x22 # r) = Some (take 3 s @ r1, r)"
          unfolding quote_chars_surrogate[OF su np] unicode_escape_of_def
          by (simp add: parse_chars_Cons e ih)
        then show ?thesis using s by simp
      qed
    qed
  qed
qed

lemma quote_char_nonempty: "quote_char c \<noteq> []"
  by (simp add: quote_char_def)

subsection \<open>Values: \<open>JSON_parse\<close> inverts \<open>ser\<close>\<close>

lemma value_start_not: "value_start c \<Longrightarrow> \<not> is_json_ws c \<and> c \<noteq> CHR '']'' \<and> c \<noteq> CHR ''}'' \<and> c \<noteq> CHR '','' \<and> c \<noteq> CHR '':''"
  by (auto simp: value_start_def is_json_ws_def is_digit_def)

lemma ser_start: "plain v \<Longrightarrow> \<exists>c cs. ser v = c # cs \<and> value_start c"
  by (cases v) (auto simp: value_start_def quote_def)

lemma ser_nonempty: "plain v \<Longrightarrow> ser v \<noteq> []"
  using ser_start[of v] by auto

lemma all_plain_iff: "all_plain vs = (\<forall>v\<in>set vs. plain v)"
  by (induction vs) auto

lemma members_plain_iff: "members_plain kvs = (\<forall>(k, v)\<in>set kvs. array_index k = None \<and> plain v)"
  by (induction kvs) auto

lemma ser_elems_start: "vs \<noteq> [] \<Longrightarrow> all_plain vs \<Longrightarrow> \<exists>c cs. ser_elems vs = c # cs \<and> value_start c"
proof (cases vs)
  case (Cons v ws)
  assume "all_plain vs"
  then have "plain v" using Cons by simp
  then obtain c cs where "ser v = c # cs" "value_start c" using ser_start by blast
  then show ?thesis using Cons by simp
qed simp

lemma ser_members_Nil_iff: "members_plain kvs \<Longrightarrow> (ser_members kvs = []) = (kvs = [])"
proof (cases kvs)
  case (Cons kv ws)
  assume "members_plain kvs"
  then have "snd kv \<noteq> JUndefined" using Cons by (cases kv) auto
  then show ?thesis using Cons by (cases kv) (simp add: Let_def quote_def)
qed simp

lemma update_fresh: "k \<notin> set (map fst acc) \<Longrightarrow> AList.update k v acc = acc @ [(k, v)]"
  by (induction acc) auto

text \<open>The properties of an object none of whose keys is an array index stay as they are.\<close>

lemma indexed_none: "\<forall>kv\<in>set kvs. array_index (fst kv) = None \<Longrightarrow> indexed kvs = []"
  by (induction kvs) (simp_all add: indexed_def List.map_filter_simps)

lemma property_order_plain:
  assumes "\<forall>kv\<in>set kvs. array_index (fst kv) = None"
  shows "property_order kvs = kvs"
proof -
  have "filter (\<lambda>kv. array_index (fst kv) = None) kvs = kvs"
    using assms by (simp add: filter_id_conv)
  then show ?thesis
    using indexed_none[OF assms] by (simp add: property_order_def)
qed

lemma skip_ws_start: "value_start c \<Longrightarrow> skip_ws (c # s) = c # s"
  by (simp add: skip_ws_def value_start_not)

lemma pv_null: "parse_value (Suc n) (''null'' @ r) = Some (JNull, r)"
  by (simp add: skip_ws_def is_json_ws_def)

lemma pv_true: "parse_value (Suc n) (''true'' @ r) = Some (JBool True, r)"
  by (simp add: skip_ws_def is_json_ws_def)

lemma pv_false: "parse_value (Suc n) (''false'' @ r) = Some (JBool False, r)"
  by (simp add: skip_ws_def is_json_ws_def)

lemma pv_string:
  "parse_value (Suc n) (CHR 0x22 # s) =
     (case parse_chars s of None \<Rightarrow> None | Some (str, r1) \<Rightarrow> Some (JStr str, r1))"
  by (simp add: skip_ws_def is_json_ws_def)

lemma pv_array:
  "parse_value (Suc n) (CHR ''['' # s) =
     (if prefix '']'' (skip_ws s) then Some (JArr [], drop 1 (skip_ws s)) else parse_elems n [] s)"
  by (simp add: skip_ws_def is_json_ws_def)

lemma pv_object:
  "parse_value (Suc n) (CHR ''{'' # s) =
     (if prefix ''}'' (skip_ws s) then Some (JObj [], drop 1 (skip_ws s)) else parse_members n [] s)"
  by (simp add: skip_ws_def is_json_ws_def)

lemma skip_ws_punct:
  "skip_ws (CHR '','' # r) = CHR '','' # r" "skip_ws (CHR '']'' # r) = CHR '']'' # r"
  "skip_ws (CHR ''}'' # r) = CHR ''}'' # r" "skip_ws (CHR '':'' # r) = CHR '':'' # r"
  "skip_ws (CHR 0x22 # r) = CHR 0x22 # r"
  by (simp_all add: skip_ws_def is_json_ws_def)

lemma parse_elems_ser:
  assumes "\<And>v n r. v \<in> set vs \<Longrightarrow> length (ser v) < n \<Longrightarrow> parse_value n (ser v @ r) = Some (v, r)"
    and "vs \<noteq> []"
    and "all_plain vs"
    and "length (ser_elems vs) + 1 < n"
  shows "parse_elems n acc (ser_elems vs @ CHR '']'' # r) = Some (JArr (acc @ vs), r)"
  using assms
proof (induction vs arbitrary: n acc)
  case Nil
  then show ?case by simp
next
  case (Cons v vs)
  obtain m where n: "n = Suc m" using Cons.prems(4) by (cases n) auto
  have pv: "\<And>r. length (ser v) < m \<Longrightarrow> parse_value m (ser v @ r) = Some (v, r)"
    using Cons.prems(1) by simp
  have pl: "plain v" "all_plain vs" using Cons.prems(3) by simp_all
  show ?case
  proof (cases "vs = []")
    case True
    have "length (ser v) < m" using Cons.prems(4) n True by simp
    then have "parse_value m (ser v @ CHR '']'' # r) = Some (v, CHR '']'' # r)"
      using pv by blast
    then show ?thesis using True n by (simp add: skip_ws_punct)
  next
    case False
    have l: "length (ser v) < m" "length (ser_elems vs) + 1 < m"
      using Cons.prems(4) n False ser_nonempty[OF pl(1)]
      by (auto simp: length_greater_0_conv[symmetric] simp del: length_greater_0_conv)
    have "parse_value m (ser v @ CHR '','' # ser_elems vs @ CHR '']'' # r) = Some (v, CHR '','' # ser_elems vs @ CHR '']'' # r)"
      using pv l(1) by blast
    moreover have "parse_elems m (acc @ [v]) (ser_elems vs @ CHR '']'' # r) = Some (JArr ((acc @ [v]) @ vs), r)"
      using Cons.IH[OF _ False pl(2) l(2)] Cons.prems(1) by simp
    ultimately show ?thesis using False n by (simp add: skip_ws_punct)
  qed
qed

lemma parse_members_ser:
  assumes "\<And>k v n r. (k, v) \<in> set kvs \<Longrightarrow> length (ser v) < n \<Longrightarrow> parse_value n (ser v @ r) = Some (v, r)"
    and "kvs \<noteq> []"
    and "members_plain kvs"
    and "distinct (map fst acc @ map fst kvs)"
    and "\<forall>kv\<in>set acc. array_index (fst kv) = None"
    and "length (ser_members kvs) + 1 < n"
  shows "parse_members n acc (ser_members kvs @ CHR ''}'' # r) = Some (JObj (acc @ kvs), r)"
  using assms
proof (induction kvs arbitrary: n acc)
  case Nil
  then show ?case by simp
next
  case (Cons kv kvs)
  obtain k v where kv: "kv = (k, v)" by (cases kv)
  obtain m where n: "n = Suc m" using Cons.prems(6) by (cases n) auto
  have v: "v \<noteq> JUndefined" and mj: "members_plain kvs" and ki: "array_index k = None"
    using Cons.prems(3) kv by auto
  have "(k, v) \<in> set (kv # kvs)" using kv by simp
  then have pv: "\<And>r. length (ser v) < m \<Longrightarrow> parse_value m (ser v @ r) = Some (v, r)"
    by (rule Cons.prems(1))
  have fresh: "k \<notin> set (map fst acc)" using Cons.prems(4) kv by auto
  have upd: "AList.update k v acc = acc @ [(k, v)]" using fresh by (rule update_fresh)
  have acc: "\<forall>kv\<in>set (acc @ [(k, v)]). array_index (fst kv) = None"
    using Cons.prems(5) ki by simp
  have key: "parse_chars (quote_chars k @ CHR 0x22 # s) = Some (k, s)" for s
    by (rule parse_chars_quoted)
  show ?case
  proof (cases "kvs = []")
    case True
    have s: "ser_members (kv # kvs) = CHR 0x22 # quote_chars k @ CHR 0x22 # CHR '':'' # ser v"
      using True kv v by (simp add: quote_def)
    have "length (ser v) < m" using Cons.prems(6) n unfolding s by simp
    then have "parse_value m (ser v @ CHR ''}'' # r) = Some (v, CHR ''}'' # r)"
      using pv by blast
    then show ?thesis unfolding s n using True kv upd property_order_plain[OF acc]
      by (simp add: skip_ws_punct key)
  next
    case False
    have ne: "ser_members kvs \<noteq> []" using ser_members_Nil_iff[OF mj] False by simp
    have s: "ser_members (kv # kvs) = CHR 0x22 # quote_chars k @ CHR 0x22 # CHR '':'' # ser v @ CHR '','' # ser_members kvs"
      using ne kv v by (simp add: quote_def Let_def)
    have l: "length (ser v) < m" "length (ser_members kvs) + 1 < m"
      using Cons.prems(6) n unfolding s by auto
    have "parse_value m (ser v @ CHR '','' # ser_members kvs @ CHR ''}'' # r) = Some (v, CHR '','' # ser_members kvs @ CHR ''}'' # r)"
      using pv l(1) by blast
    moreover have ih: "\<And>k v n r. (k, v) \<in> set kvs \<Longrightarrow> length (ser v) < n \<Longrightarrow> parse_value n (ser v @ r) = Some (v, r)"
      using Cons.prems(1) by (meson list.set_intros(2))
    have d: "distinct (map fst (acc @ [(k, v)]) @ map fst kvs)"
      using Cons.prems(4) kv by auto
    have "parse_members m (acc @ [(k, v)]) (ser_members kvs @ CHR ''}'' # r) = Some (JObj ((acc @ [(k, v)]) @ kvs), r)"
      by (rule Cons.IH[OF ih False mj d acc l(2)])
    ultimately show ?thesis unfolding s n using kv upd by (simp add: skip_ws_punct key)
  qed
qed

declare parse_value.simps(2) [simp del]

lemma parse_value_ser:
  "plain v \<Longrightarrow> length (ser v) < n \<Longrightarrow> parse_value n (ser v @ r) = Some (v, r)"
proof (induction v arbitrary: n r)
  case JUndefined
  then show ?case by simp
next
  case JNull
  then obtain m where "n = Suc m" by (cases n) auto
  then show ?case using pv_null by simp
next
  case (JBool b)
  then obtain m where "n = Suc m" by (cases n) auto
  then show ?case using pv_true pv_false by (cases b) simp_all
next
  case (JNum i)
  then show ?case by simp
next
  case (JStr s)
  then obtain m where "n = Suc m" by (cases n) auto
  then show ?case by (simp add: quote_def pv_string parse_chars_quoted)
next
  case (JArr vs)
  obtain m where n: "n = Suc m" using JArr.prems(2) by (cases n) auto
  show ?case
  proof (cases "vs = []")
    case True
    then show ?thesis using n by (simp add: pv_array skip_ws_punct)
  next
    case False
    have ap: "all_plain vs" using JArr.prems(1) by simp
    obtain c cs where st: "ser_elems vs = c # cs" "value_start c"
      using ser_elems_start[OF False ap] by blast
    have np: "\<not> prefix '']'' (skip_ws (ser_elems vs @ CHR '']'' # r))"
      using st value_start_not[OF st(2)] by (auto simp: skip_ws_start)
    have ih: "\<And>v n r. v \<in> set vs \<Longrightarrow> length (ser v) < n \<Longrightarrow> parse_value n (ser v @ r) = Some (v, r)"
      using JArr.IH ap by (simp add: all_plain_iff)
    have l: "length (ser_elems vs) + 1 < m" using JArr.prems(2) n by simp
    have "parse_elems m [] (ser_elems vs @ CHR '']'' # r) = Some (JArr ([] @ vs), r)"
      by (rule parse_elems_ser[OF ih False ap l])
    then show ?thesis using n np by (simp add: pv_array)
  qed
next
  case (JObj kvs)
  obtain m where n: "n = Suc m" using JObj.prems(2) by (cases n) auto
  show ?case
  proof (cases "kvs = []")
    case True
    then show ?thesis using n by (simp add: pv_object skip_ws_punct)
  next
    case False
    have mj: "members_plain kvs" and d: "distinct (map fst [] @ map fst kvs)"
      using JObj.prems(1) by simp_all
    obtain k v ws where kvs: "kvs = (k, v) # ws" using False by (cases kvs) auto
    then have "v \<noteq> JUndefined" using mj by auto
    then obtain cs where st: "ser_members kvs = CHR 0x22 # cs"
      using kvs by (auto simp: Let_def quote_def)
    have np: "\<not> prefix ''}'' (skip_ws (ser_members kvs @ CHR ''}'' # r))"
      using st by (simp add: skip_ws_punct)
    have ih: "\<And>k v n r. (k, v) \<in> set kvs \<Longrightarrow> length (ser v) < n \<Longrightarrow> parse_value n (ser v @ r) = Some (v, r)"
    proof -
      fix k v n r
      assume a: "(k, v) \<in> set kvs" "length (ser v) < n"
      have "plain v" using mj a(1) by (auto simp: members_plain_iff)
      moreover have "v \<in> Basic_BNFs.snds (k, v)" by simp
      ultimately show "parse_value n (ser v @ r) = Some (v, r)"
        using JObj.IH a by blast
    qed
    have e: "\<forall>kv\<in>set []. array_index (fst kv) = None" by simp
    have l: "length (ser_members kvs) + 1 < m" using JObj.prems(2) n by simp
    have "parse_members m [] (ser_members kvs @ CHR ''}'' # r) = Some (JObj ([] @ kvs), r)"
      by (rule parse_members_ser[OF ih False mj d e l])
    then show ?thesis using n np by (simp add: pv_object)
  qed
qed

text \<open>
  On every value without numbers the parser gives back the value whose text it reads;
  in particular the bound on nested calls is enough for every such text.
\<close>

lemma JSON_parse_ser: "plain v \<Longrightarrow> JSON_parse (ser v) = Inr v"
proof -
  assume "plain v"
  then have "parse_value (Suc (length (ser v))) (ser v @ []) = Some (v, [])"
    by (rule parse_value_ser) simp
  then show ?thesis by (simp add: JSON_parse_def skip_ws_def)
qed

subsection \<open>The bound on nested calls\<close>

text \<open>
  Every successful call reads at least one character, and a call succeeds under any
  bound that is at least the number of characters it reads.
\<close>

lemma skip_ws_length: "length (skip_ws s) \<le> length s"
  by (simp add: skip_ws_def length_dropWhile_le)

lemma parse_chars_shorter: "parse_chars s = Some (t, r) \<Longrightarrow> length r < length s"
proof (induction s arbitrary: t r rule: length_induct)
  case (1 s)
  show ?case
  proof (cases s)
    case Nil
    then show ?thesis using 1(2) by (simp add: parse_chars_Nil)
  next
    case (Cons c cs)
    show ?thesis
    proof (cases "c = CHR 0x22")
      case True
      then show ?thesis using 1(2) Cons by (simp add: parse_chars_Cons)
    next
      case nq: False
      show ?thesis
      proof (cases "c = CHR 0x5C")
        case True
        then obtain bs r1 t1 where e: "escape cs = Some (bs, r1)" and p: "parse_chars r1 = Some (t1, r)"
          using 1(2) Cons nq by (auto simp: parse_chars_Cons split: option.splits)
        have "length r1 < length cs" using e by (rule escape_shorter)
        moreover have "length r < length r1"
          using 1(1) p calculation Cons by auto
        ultimately show ?thesis using Cons by simp
      next
        case False
        then obtain t1 where p: "parse_chars cs = Some (t1, r)"
          using 1(2) Cons nq by (auto simp: parse_chars_Cons split: option.splits if_splits)
        have "length r < length cs" using 1(1) p Cons by auto
        then show ?thesis using Cons by simp
      qed
    qed
  qed
qed

lemma fraction_length: "fraction r = Some (fs, r2) \<Longrightarrow> length r2 \<le> length r"
proof -
  assume a: "fraction r = Some (fs, r2)"
  have "length (dropWhile is_digit (tl r)) \<le> length r"
    using length_dropWhile_le[of is_digit "tl r"] by simp
  then show ?thesis
    using a by (auto simp: fraction_def Let_def split: if_splits)
qed

lemma exponent_length: "exponent r = Some (e, r2) \<Longrightarrow> length r2 \<le> length r"
proof -
  assume a: "exponent r = Some (e, r2)"
  have "length (dropWhile is_digit (tl (tl r))) \<le> length r"
    and "length (dropWhile is_digit (tl r)) \<le> length r"
    using length_dropWhile_le[of is_digit "tl (tl r)"] length_dropWhile_le[of is_digit "tl r"]
    by simp_all
  then show ?thesis
    using a by (auto simp: exponent_def Let_def split: if_splits)
qed

lemma parse_number_shorter: "parse_number s = Some (v, r) \<Longrightarrow> length r < length s"
proof -
  assume a: "parse_number s = Some (v, r)"
  define s1 where "s1 = (if s \<noteq> [] \<and> hd s = CHR ''-'' then tl s else s)"
  obtain fs r2 e where f: "fraction (dropWhile is_digit s1) = Some (fs, r2)"
    and x: "exponent r2 = Some (e, r)" and ne: "takeWhile is_digit s1 \<noteq> []"
    using a unfolding parse_number_def Let_def s1_def
    by (auto split: if_splits option.splits)
  have "length (takeWhile is_digit s1) + length (dropWhile is_digit s1) = length s1"
    by (metis length_append takeWhile_dropWhile_id)
  then have "length (dropWhile is_digit s1) < length s1"
    using ne by (simp add: length_greater_0_conv[symmetric] del: length_greater_0_conv)
  moreover have "length s1 \<le> length s" by (simp add: s1_def)
  ultimately show ?thesis
    using fraction_length[OF f] exponent_length[OF x] by simp
qed

lemma drop_prefix_shorter: "prefix p t \<Longrightarrow> p \<noteq> [] \<Longrightarrow> length (drop (length p) t) < length t"
  by (auto simp: prefix_def)

lemma pv_step_shorter:
  assumes pe: "\<And>acc s v r. parse_elems n acc s = Some (v, r) \<Longrightarrow> length r < length s"
    and pm: "\<And>acc s v r. parse_members n acc s = Some (v, r) \<Longrightarrow> length r < length s"
    and a: "parse_value (Suc n) s = Some (v, r)"
  shows "length r < length s"
proof -
  let ?t = "skip_ws s"
  have t: "length ?t \<le> length s" by (rule skip_ws_length)
  have lit: "prefix p ?t \<Longrightarrow> p \<noteq> [] \<Longrightarrow> length (drop (length p) ?t) < length s" for p
    using drop_prefix_shorter[of p ?t] t by simp
  consider (null) "prefix ''null'' ?t" "r = drop 4 ?t"
    | (true) "prefix ''true'' ?t" "r = drop 4 ?t"
    | (false) "prefix ''false'' ?t" "r = drop 5 ?t"
    | (str) r0 str where "?t = CHR 0x22 # r0" "parse_chars r0 = Some (str, r)"
    | (arr0) r0 where "?t = CHR ''['' # r0" "r = drop 1 (skip_ws r0)"
    | (arr) r0 where "?t = CHR ''['' # r0" "parse_elems n [] r0 = Some (v, r)"
    | (obj0) r0 where "?t = CHR ''{'' # r0" "r = drop 1 (skip_ws r0)"
    | (obj) r0 where "?t = CHR ''{'' # r0" "parse_members n [] r0 = Some (v, r)"
    | (num) "parse_number ?t = Some (v, r)"
    using a unfolding parse_value.simps(2) Let_def
    by (auto split: if_splits list.splits option.splits)
  then show ?thesis
  proof cases
    case null
    then show ?thesis using lit[of "''null''"] by simp
  next
    case true
    then show ?thesis using lit[of "''true''"] by simp
  next
    case false
    then show ?thesis using lit[of "''false''"] by simp
  next
    case str
    then show ?thesis using parse_chars_shorter[OF str(2)] t by simp
  next
    case arr0
    then show ?thesis using skip_ws_length[of r0] t by simp
  next
    case arr
    then show ?thesis using pe[OF arr(2)] t by simp
  next
    case obj0
    then show ?thesis using skip_ws_length[of r0] t by simp
  next
    case obj
    then show ?thesis using pm[OF obj(2)] t by simp
  next
    case num
    then show ?thesis using parse_number_shorter[OF num] t by simp
  qed
qed

lemma pe_step_shorter:
  assumes pv: "\<And>s v r. parse_value n s = Some (v, r) \<Longrightarrow> length r < length s"
    and pe: "\<And>acc s v r. parse_elems n acc s = Some (v, r) \<Longrightarrow> length r < length s"
    and a: "parse_elems (Suc n) acc s = Some (v, r)"
  shows "length r < length s"
proof -
  obtain v1 r1 c r2 where s1: "parse_value n s = Some (v1, r1)" and s2: "skip_ws r1 = c # r2"
    and s3: "c = CHR '','' \<and> parse_elems n (acc @ [v1]) r2 = Some (v, r) \<or> c = CHR '']'' \<and> r = r2"
    using a by (auto split: option.splits list.splits if_splits)
  have "length r1 < length s" using pv[OF s1] .
  moreover have "length r2 < length r1" using skip_ws_length[of r1] s2 by simp
  moreover have "length r \<le> length r2" using s3 pe by fastforce
  ultimately show ?thesis by simp
qed

lemma pm_step_shorter:
  assumes pv: "\<And>s v r. parse_value n s = Some (v, r) \<Longrightarrow> length r < length s"
    and pm: "\<And>acc s v r. parse_members n acc s = Some (v, r) \<Longrightarrow> length r < length s"
    and a: "parse_members (Suc n) acc s = Some (v, r)"
  shows "length r < length s"
proof -
  obtain r0 k r1 r2 v1 r3 d r4 where s0: "skip_ws s = CHR 0x22 # r0"
    and s1: "parse_chars r0 = Some (k, r1)" and s2: "skip_ws r1 = CHR '':'' # r2"
    and s3: "parse_value n r2 = Some (v1, r3)" and s4: "skip_ws r3 = d # r4"
    and s5: "d = CHR '','' \<and> parse_members n (AList.update k v1 acc) r4 = Some (v, r) \<or> d = CHR ''}'' \<and> r = r4"
    using a by (auto split: option.splits list.splits if_splits)
  have "length r0 < length s" using skip_ws_length[of s] s0 by simp
  moreover have "length r1 < length r0" using parse_chars_shorter[OF s1] .
  moreover have "length r2 < length r1" using skip_ws_length[of r1] s2 by simp
  moreover have "length r3 < length r2" using pv[OF s3] .
  moreover have "length r4 < length r3" using skip_ws_length[of r3] s4 by simp
  moreover have "length r \<le> length r4" using s5 pm by fastforce
  ultimately show ?thesis by simp
qed

lemma parse_shorter:
  "(\<forall>s v r. parse_value n s = Some (v, r) \<longrightarrow> length r < length s)
   \<and> (\<forall>acc s v r. parse_elems n acc s = Some (v, r) \<longrightarrow> length r < length s)
   \<and> (\<forall>acc s v r. parse_members n acc s = Some (v, r) \<longrightarrow> length r < length s)"
proof (induction n)
  case 0
  then show ?case by simp
next
  case (Suc n)
  have pv: "\<And>s v r. parse_value n s = Some (v, r) \<Longrightarrow> length r < length s"
    and pe: "\<And>acc s v r. parse_elems n acc s = Some (v, r) \<Longrightarrow> length r < length s"
    and pm: "\<And>acc s v r. parse_members n acc s = Some (v, r) \<Longrightarrow> length r < length s"
    using Suc by blast+
  show ?case
  proof (intro conjI allI impI)
    fix s v r
    show "parse_value (Suc n) s = Some (v, r) \<Longrightarrow> length r < length s"
      by (rule pv_step_shorter[OF pe pm])
  next
    fix acc s v r
    show "parse_elems (Suc n) acc s = Some (v, r) \<Longrightarrow> length r < length s"
      by (rule pe_step_shorter[OF pv pe])
  next
    fix acc s v r
    show "parse_members (Suc n) acc s = Some (v, r) \<Longrightarrow> length r < length s"
      by (rule pm_step_shorter[OF pv pm])
  qed
qed

lemmas parse_value_shorter = parse_shorter[THEN conjunct1, rule_format]
lemmas parse_elems_shorter = parse_shorter[THEN conjunct2, THEN conjunct1, rule_format]
lemmas parse_members_shorter = parse_shorter[THEN conjunct2, THEN conjunct2, rule_format]

lemma pv_open_array:
  "skip_ws s = CHR ''['' # r0 \<Longrightarrow>
   parse_value (Suc x) s =
     (if prefix '']'' (skip_ws r0) then Some (JArr [], drop 1 (skip_ws r0)) else parse_elems x [] r0)"
  by (simp add: parse_value.simps(2))

lemma pv_open_object:
  "skip_ws s = CHR ''{'' # r0 \<Longrightarrow>
   parse_value (Suc x) s =
     (if prefix ''}'' (skip_ws r0) then Some (JObj [], drop 1 (skip_ws r0)) else parse_members x [] r0)"
  by (simp add: parse_value.simps(2))

lemma pv_leaf:
  assumes "\<And>r0. skip_ws s \<noteq> CHR ''['' # r0" and "\<And>r0. skip_ws s \<noteq> CHR ''{'' # r0"
  shows "parse_value (Suc x) s = parse_value (Suc y) s"
proof (cases "skip_ws s")
  case Nil
  then show ?thesis by (simp add: parse_value.simps(2))
next
  case (Cons c r0)
  then have "c \<noteq> CHR ''[''" "c \<noteq> CHR ''{''" using assms by auto
  then show ?thesis using Cons by (simp add: parse_value.simps(2) Let_def)
qed

lemma pv_step_fuel:
  assumes pe: "\<And>acc s v r m. parse_elems n acc s = Some (v, r) \<Longrightarrow> length s - length r \<le> m
                 \<Longrightarrow> parse_elems m acc s = Some (v, r)"
    and pm: "\<And>acc s v r m. parse_members n acc s = Some (v, r) \<Longrightarrow> length s - length r \<le> m
                 \<Longrightarrow> parse_members m acc s = Some (v, r)"
    and a: "parse_value (Suc n) s = Some (v, r)"
    and m: "length s - length r \<le> m"
  shows "parse_value m s = Some (v, r)"
proof -
  have sh: "length r < length s" using a by (rule parse_value_shorter)
  then obtain k where k: "m = Suc k" using m by (cases m) auto
  have t: "length (skip_ws s) \<le> length s" by (rule skip_ws_length)
  consider (arr) r0 where "skip_ws s = CHR ''['' # r0"
    | (obj) r0 where "skip_ws s = CHR ''{'' # r0"
    | (leaf) "\<And>r0. skip_ws s \<noteq> CHR ''['' # r0" "\<And>r0. skip_ws s \<noteq> CHR ''{'' # r0"
    by blast
  then show ?thesis
  proof cases
    case arr
    show ?thesis
    proof (cases "prefix '']'' (skip_ws r0)")
      case True
      then show ?thesis using a k by (simp add: pv_open_array[OF arr])
    next
      case False
      then have e: "parse_elems n [] r0 = Some (v, r)"
        using a by (simp add: pv_open_array[OF arr])
      have "length r0 - length r \<le> k" using arr t m k by simp
      then have "parse_elems k [] r0 = Some (v, r)" using pe[OF e] by simp
      then show ?thesis using False k by (simp add: pv_open_array[OF arr])
    qed
  next
    case obj
    show ?thesis
    proof (cases "prefix ''}'' (skip_ws r0)")
      case True
      then show ?thesis using a k by (simp add: pv_open_object[OF obj])
    next
      case False
      then have e: "parse_members n [] r0 = Some (v, r)"
        using a by (simp add: pv_open_object[OF obj])
      have "length r0 - length r \<le> k" using obj t m k by simp
      then have "parse_members k [] r0 = Some (v, r)" using pm[OF e] by simp
      then show ?thesis using False k by (simp add: pv_open_object[OF obj])
    qed
  next
    case leaf
    then show ?thesis using a k pv_leaf[of s k n] by simp
  qed
qed

lemma pe_step_fuel:
  assumes pv: "\<And>s v r m. parse_value n s = Some (v, r) \<Longrightarrow> length s - length r \<le> m
                 \<Longrightarrow> parse_value m s = Some (v, r)"
    and pe: "\<And>acc s v r m. parse_elems n acc s = Some (v, r) \<Longrightarrow> length s - length r \<le> m
                 \<Longrightarrow> parse_elems m acc s = Some (v, r)"
    and a: "parse_elems (Suc n) acc s = Some (v, r)"
    and m: "length s - length r \<le> m"
  shows "parse_elems m acc s = Some (v, r)"
proof -
  have sh: "length r < length s" using a by (rule parse_elems_shorter)
  then obtain k where k: "m = Suc k" using m by (cases m) auto
  obtain v1 r1 c r2 where s1: "parse_value n s = Some (v1, r1)" and s2: "skip_ws r1 = c # r2"
    and s3: "c = CHR '','' \<and> parse_elems n (acc @ [v1]) r2 = Some (v, r) \<or> c = CHR '']'' \<and> v = JArr (acc @ [v1]) \<and> r = r2"
    using a by (auto split: option.splits list.splits if_splits)
  have l1: "length r1 < length s" using s1 by (rule parse_value_shorter)
  have l2: "length r2 < length r1" using skip_ws_length[of r1] s2 by simp
  have l3: "length r \<le> length r2" using s3 parse_elems_shorter by fastforce
  have "length s - length r1 \<le> k" using l1 l2 l3 m k by simp
  then have p1: "parse_value k s = Some (v1, r1)" using pv[OF s1] by simp
  from s3 show ?thesis
  proof
    assume c: "c = CHR '','' \<and> parse_elems n (acc @ [v1]) r2 = Some (v, r)"
    then have e: "parse_elems n (acc @ [v1]) r2 = Some (v, r)" by simp
    have "length r2 - length r \<le> k" using l1 l2 m k by simp
    then have "parse_elems k (acc @ [v1]) r2 = Some (v, r)" by (rule pe[OF e])
    then show ?thesis using k p1 s2 c by simp
  next
    assume "c = CHR '']'' \<and> v = JArr (acc @ [v1]) \<and> r = r2"
    then show ?thesis using k p1 s2 by simp
  qed
qed

lemma pm_step_fuel:
  assumes pv: "\<And>s v r m. parse_value n s = Some (v, r) \<Longrightarrow> length s - length r \<le> m
                 \<Longrightarrow> parse_value m s = Some (v, r)"
    and pm: "\<And>acc s v r m. parse_members n acc s = Some (v, r) \<Longrightarrow> length s - length r \<le> m
                 \<Longrightarrow> parse_members m acc s = Some (v, r)"
    and a: "parse_members (Suc n) acc s = Some (v, r)"
    and m: "length s - length r \<le> m"
  shows "parse_members m acc s = Some (v, r)"
proof -
  have sh: "length r < length s" using a by (rule parse_members_shorter)
  then obtain k where k: "m = Suc k" using m by (cases m) auto
  obtain r0 key r1 r2 v1 r3 d r4 where s0: "skip_ws s = CHR 0x22 # r0"
    and s1: "parse_chars r0 = Some (key, r1)" and s2: "skip_ws r1 = CHR '':'' # r2"
    and s3: "parse_value n r2 = Some (v1, r3)" and s4: "skip_ws r3 = d # r4"
    and s5: "d = CHR '','' \<and> parse_members n (AList.update key v1 acc) r4 = Some (v, r)
             \<or> d = CHR ''}'' \<and> v = JObj (property_order (AList.update key v1 acc)) \<and> r = r4"
    using a by (auto split: option.splits list.splits if_splits)
  have l0: "length r0 < length s" using skip_ws_length[of s] s0 by simp
  have l1: "length r1 < length r0" using parse_chars_shorter[OF s1] .
  have l2: "length r2 < length r1" using skip_ws_length[of r1] s2 by simp
  have l3: "length r3 < length r2" using s3 by (rule parse_value_shorter)
  have l4: "length r4 < length r3" using skip_ws_length[of r3] s4 by simp
  have l5: "length r \<le> length r4" using s5 parse_members_shorter by fastforce
  have "length r2 - length r3 \<le> k" using l0 l1 l2 l3 l4 l5 m k by simp
  then have p1: "parse_value k r2 = Some (v1, r3)" using pv[OF s3] by simp
  from s5 show ?thesis
  proof
    assume c: "d = CHR '','' \<and> parse_members n (AList.update key v1 acc) r4 = Some (v, r)"
    then have e: "parse_members n (AList.update key v1 acc) r4 = Some (v, r)" by simp
    have "length r4 - length r \<le> k" using l0 l1 l2 l3 l4 m k by simp
    then have "parse_members k (AList.update key v1 acc) r4 = Some (v, r)" by (rule pm[OF e])
    then show ?thesis using k p1 s0 s1 s2 s4 c by simp
  next
    assume "d = CHR ''}'' \<and> v = JObj (property_order (AList.update key v1 acc)) \<and> r = r4"
    then show ?thesis using k p1 s0 s1 s2 s4 by simp
  qed
qed

lemma parse_fuel:
  "(\<forall>s v r m. parse_value n s = Some (v, r) \<longrightarrow> length s - length r \<le> m \<longrightarrow>
       parse_value m s = Some (v, r))
   \<and> (\<forall>acc s v r m. parse_elems n acc s = Some (v, r) \<longrightarrow> length s - length r \<le> m \<longrightarrow>
       parse_elems m acc s = Some (v, r))
   \<and> (\<forall>acc s v r m. parse_members n acc s = Some (v, r) \<longrightarrow> length s - length r \<le> m \<longrightarrow>
       parse_members m acc s = Some (v, r))"
proof (induction n)
  case 0
  then show ?case by simp
next
  case (Suc n)
  have pv: "\<And>s v r m. parse_value n s = Some (v, r) \<Longrightarrow> length s - length r \<le> m
                 \<Longrightarrow> parse_value m s = Some (v, r)"
    and pe: "\<And>acc s v r m. parse_elems n acc s = Some (v, r) \<Longrightarrow> length s - length r \<le> m
                 \<Longrightarrow> parse_elems m acc s = Some (v, r)"
    and pm: "\<And>acc s v r m. parse_members n acc s = Some (v, r) \<Longrightarrow> length s - length r \<le> m
                 \<Longrightarrow> parse_members m acc s = Some (v, r)"
    using Suc by blast+
  show ?case
  proof (intro conjI allI impI)
    fix s v r m
    show "parse_value (Suc n) s = Some (v, r) \<Longrightarrow> length s - length r \<le> m \<Longrightarrow>
        parse_value m s = Some (v, r)"
      by (rule pv_step_fuel[OF pe pm])
  next
    fix acc s v r m
    show "parse_elems (Suc n) acc s = Some (v, r) \<Longrightarrow> length s - length r \<le> m \<Longrightarrow>
        parse_elems m acc s = Some (v, r)"
      by (rule pe_step_fuel[OF pv pe])
  next
    fix acc s v r m
    show "parse_members (Suc n) acc s = Some (v, r) \<Longrightarrow> length s - length r \<le> m \<Longrightarrow>
        parse_members m acc s = Some (v, r)"
      by (rule pm_step_fuel[OF pv pm])
  qed
qed

text \<open>
  The bound on nested calls in \<open>JSON_parse\<close> loses nothing: a text that parses under
  any bound parses under the bound \<open>JSON_parse\<close> uses, to the same value.
\<close>

lemma JSON_parse_fuel:
  assumes "parse_value n text = Some (v, r)"
  shows "parse_value (Suc (length text)) text = Some (v, r)"
  using parse_fuel[THEN conjunct1, rule_format, OF assms, of "Suc (length text)"] by simp

lemma JSON_parse_complete:
  assumes "parse_value n text = Some (v, r)" and "skip_ws r = []"
  shows "JSON_parse text = Inr v"
  using JSON_parse_fuel[OF assms(1)] assms(2) by (simp add: JSON_parse_def)

section \<open>The handlers, step by step\<close>

lemma and_then_Inr: "and_then (Inr x) f = f x"
  by (simp add: and_then_def)

lemma and_then_Inl: "and_then (Inl e) f = Inl e"
  by (simp add: and_then_def)

lemma handleQuery_run:
  assumes "question st = JStr q" and "trim q \<noteq> []"
  shows "handleQuery backend st =
     Inr (handleQuery_settle (backend (query_request (JStr q))) (handleQuery_begin st),
          [query_request (JStr q)])"
  using assms by (simp add: handleQuery_def and_then_Inr Let_def)

lemma handleFactCheck_run:
  assumes "claim st = JStr c" and "trim c \<noteq> []"
  shows "handleFactCheck backend st =
     Inr (handleFactCheck_settle (backend (fact_check_request (JStr c))) (handleFactCheck_begin st),
          [fact_check_request (JStr c)])"
  using assms by (simp add: handleFactCheck_def and_then_Inr Let_def)

lemma handleQuery_settle_failed:
  "handleQuery_try outcome = Inl e \<Longrightarrow>
   handleQuery_settle outcome st = st\<lparr>status := query_failed @ message e, loading := False\<rparr>"
  by (simp add: handleQuery_settle_def)

lemma handleQuery_settle_ok:
  "handleQuery_try outcome = Inr a \<Longrightarrow>
   handleQuery_settle outcome st = st\<lparr>answer := a, loading := False\<rparr>"
  by (simp add: handleQuery_settle_def)

lemma handleFactCheck_settle_failed:
  "handleFactCheck_try outcome = Inl e \<Longrightarrow>
   handleFactCheck_settle outcome st =
     st\<lparr>factError := Some (fact_check_failed @ message e), factLoading := False\<rparr>"
  by (simp add: handleFactCheck_settle_def)


lemma get_prop_defined: "get_prop data name = Inr v \<Longrightarrow> data \<noteq> JUndefined \<and> data \<noteq> JNull"
  by (cases data) auto

lemma get_prop_nullish: "nullish data \<Longrightarrow> \<exists>m. get_prop data name = Inl (TypeError m)"
  by (cases data) auto

lemma get_prop_not_nullish: "\<not> nullish data \<Longrightarrow> \<exists>v. get_prop data name = Inr v"
  by (cases data) auto

lemma throw_failure_detail:
  assumes "get_prop data ''detail'' = Inr d" and "truthy d"
  shows "throw_failure data = Inl (case ToString d of Inr text \<Rightarrow> Error text | Inl e \<Rightarrow> e)"
proof -
  have "d \<noteq> JUndefined" using assms(2) by auto
  then show ?thesis
    using assms
    by (cases "ToString d")
      (simp_all add: throw_failure_def and_then_Inr and_then_Inl js_or_def new_Error_def)
qed

lemma throw_failure_body:
  assumes "get_prop data ''detail'' = Inr d" and "\<not> truthy d"
  shows "throw_failure data = Inl (Error (ser data))"
proof -
  have "data \<noteq> JUndefined" using assms(1) get_prop_defined by blast
  then show ?thesis
    using assms
    by (simp add: throw_failure_def and_then_Inr js_or_def new_Error_def JSON_stringify_def)
qed

lemma throw_failure_message:
  assumes "get_prop data ''detail'' = Inr d"
  shows "\<exists>e. throw_failure data = Inl e
       \<and> message e = (if truthy d then (case ToString d of Inr text \<Rightarrow> text | Inl e \<Rightarrow> message e)
                      else ser data)"
proof (cases "truthy d")
  case True
  then show ?thesis
    using throw_failure_detail[OF assms True] by (cases "ToString d") simp_all
next
  case False
  then show ?thesis
    using throw_failure_body[OF assms False] by simp
qed

lemma throw_failure_raises:
  assumes "get_prop data ''detail'' = Inl e"
  shows "throw_failure data = Inl e"
  using assms by (simp add: throw_failure_def and_then_Inl)

lemma throw_failure_Inl: "\<exists>e. throw_failure data = Inl e"
proof (cases "get_prop data ''detail''")
  case (Inl e)
  then show ?thesis by (simp add: throw_failure_raises)
next
  case (Inr d)
  then show ?thesis using throw_failure_message by blast
qed

lemma query_try_rejected: "handleQuery_try (Rejected e) = Inl e"
  by (simp add: handleQuery_try_def)

lemma query_try_not_json: "handleQuery_try (Responded ok (Inl e)) = Inl e"
  by (simp add: handleQuery_try_def and_then_Inl)

lemma query_try_not_ok: "handleQuery_try (Responded False (Inr data)) = throw_failure data"
  by (simp add: handleQuery_try_def and_then_Inr)

lemma query_try_ok:
  "handleQuery_try (Responded True (Inr data)) =
     and_then (get_prop data ''answer'') (\<lambda>a. Inr (js_coalesce a (JStr ''No answer returned.'')))"
  by (simp add: handleQuery_try_def and_then_Inr)

lemma fact_try_rejected: "handleFactCheck_try (Rejected e) = Inl e"
  by (simp add: handleFactCheck_try_def)

lemma fact_try_not_json: "handleFactCheck_try (Responded ok (Inl e)) = Inl e"
  by (simp add: handleFactCheck_try_def and_then_Inl)

lemma fact_try_not_ok: "handleFactCheck_try (Responded False (Inr data)) = throw_failure data"
  by (simp add: handleFactCheck_try_def and_then_Inr)

lemma fact_try_ok:
  "handleFactCheck_try (Responded True (Inr data)) =
     and_then (get_prop data ''result'') (\<lambda>result.
     and_then (JSON_parse_value result) (\<lambda>parsed.
     and_then (get_prop parsed ''verdict'') (\<lambda>v.
     and_then (get_prop parsed ''reason'') (\<lambda>r.
     and_then (get_prop parsed ''evidence'') (\<lambda>ev.
       Inr (JObj [(''verdict'', v), (''reason'', r), (''evidence'', js_or ev (JArr []))]))))))"
  by (simp add: handleFactCheck_try_def and_then_Inr)

lemma failing_query: "failing outcome \<Longrightarrow> \<exists>e. handleQuery_try outcome = Inl e"
proof (cases outcome)
  case (Rejected e)
  then show ?thesis by (simp add: query_try_rejected)
next
  case (Responded ok json)
  assume "failing outcome"
  then show ?thesis
    using Responded throw_failure_Inl
    by (cases json) (auto simp: query_try_not_json query_try_not_ok)
qed

lemma failing_fact_check: "failing outcome \<Longrightarrow> \<exists>e. handleFactCheck_try outcome = Inl e"
proof (cases outcome)
  case (Rejected e)
  then show ?thesis by (simp add: fact_try_rejected)
next
  case (Responded ok json)
  assume "failing outcome"
  then show ?thesis
    using Responded throw_failure_Inl
    by (cases json) (auto simp: fact_try_not_json fact_try_not_ok)
qed

lemma trim_q: "trim ''q'' \<noteq> []"
  by code_simp

lemma fact_try_result_not_json:
  assumes "get_prop data ''result'' = Inr result" and "JSON_parse_value result = Inl e"
  shows "handleFactCheck_try (Responded True (Inr data)) = Inl e"
  using assms by (simp add: fact_try_ok and_then_Inr and_then_Inl)

lemma result_not_json_fact_check:
  assumes "result_not_json outcome"
  shows "\<exists>e. handleFactCheck_try outcome = Inl e"
proof -
  obtain data where o: "outcome = Responded True (Inr data)"
    using assms by (cases outcome rule: result_not_json.cases) auto
  obtain result where r: "get_prop data ''result'' = Inr result" and "isl (JSON_parse_value result)"
    using assms unfolding o by (auto split: sum.splits)
  then obtain e where "JSON_parse_value result = Inl e"
    by (cases "JSON_parse_value result") auto
  then show ?thesis using fact_try_result_not_json[OF r] o by blast
qed

section \<open>The session store, step by step\<close>

lemma hydrate_no_window: "hydrate None st = st"
  by (simp add: hydrate_def)

lemma hydrate_no_item: "ls STORAGE_KEY = None \<Longrightarrow> hydrate (Some ls) st = st"
  by (simp add: hydrate_def)

lemma hydrate_empty_item: "ls STORAGE_KEY = Some [] \<Longrightarrow> hydrate (Some ls) st = st"
  by (simp add: hydrate_def)

lemma hydrate_not_json:
  "ls STORAGE_KEY = Some raw \<Longrightarrow> JSON_parse raw = Inl e \<Longrightarrow> hydrate (Some ls) st = st"
  by (simp add: hydrate_def)

lemma hydrate_null:
  "ls STORAGE_KEY = Some raw \<Longrightarrow> JSON_parse raw = Inr JNull \<Longrightarrow> hydrate (Some ls) st = st"
  by (simp add: hydrate_def)

lemma hydrate_fields:
  assumes "ls STORAGE_KEY = Some raw" and "raw \<noteq> []" and "JSON_parse raw = Inr saved"
    and "get_prop saved ''question'' = Inr q" and "get_prop saved ''answer'' = Inr a"
    and "get_prop saved ''claim'' = Inr c" and "get_prop saved ''factResult'' = Inr f"
  shows "hydrate (Some ls) st =
     st\<lparr>question := js_or q (JStr []), answer := js_or a (JStr []),
        claim := js_or c (JStr []), factResult := js_or f JNull\<rparr>"
  using assms by (simp add: hydrate_def Let_def)

lemma all_plain_strings: "all_plain (map JStr xs)"
  by (induction xs) auto

lemma not_array_index: "k \<noteq> [] \<Longrightarrow> \<not> is_digit (hd k) \<Longrightarrow> array_index k = None"
  by (cases k) (auto simp: array_index_def)

lemma field_names:
  "array_index ''question'' = None" "array_index ''answer'' = None"
  "array_index ''claim'' = None" "array_index ''factResult'' = None"
  "array_index ''verdict'' = None" "array_index ''reason'' = None"
  "array_index ''evidence'' = None"
  by (simp_all add: not_array_index is_digit_def)

lemma plain_factResult: "plain (js_of_factResult f)"
  by (cases f)
    (simp_all add: js_of_factResult_def js_of_FactResult_def all_plain_strings field_names)

lemma truthy_factResult: "js_or (js_of_factResult f) JNull = js_of_factResult f"
  by (cases f) (simp_all add: js_of_factResult_def js_of_FactResult_def js_or_def)

lemma js_or_string: "js_or (JStr x) (JStr []) = JStr x"
  by (simp add: js_or_def)

lemma stateToSave_typed:
  assumes "persisted st = js_of_PersistedState s"
  shows "stateToSave st =
     JObj [(''question'', JStr (p_question s)), (''answer'', JStr (p_answer s)),
           (''claim'', JStr (p_claim s)), (''factResult'', js_of_factResult (p_factResult s))]"
  using assms by (simp add: persisted_def js_of_PersistedState_def stateToSave_def)

lemma plain_stateToSave:
  assumes "persisted st = js_of_PersistedState s"
  shows "plain (stateToSave st)"
  by (simp add: stateToSave_typed[OF assms] plain_factResult field_names)

lemma persist_text:
  "persist st (Some ls) = Some (ls(STORAGE_KEY \<mapsto> ser (stateToSave st)))"
  by (simp add: persist_def JSON_stringify_def stateToSave_def)

section \<open>Texts used as examples\<close>


lemma not_json_text:
  \<open>JSON_parse ''SUPPORTED'' = Inl (SyntaxError ''Unexpected token in JSON: SUPPORTED'')\<close>
  by code_simp

lemma bad_text:
  \<open>JSON_parse ''{"question":'' = Inl (SyntaxError ''Unexpected token in JSON: {"question":'')\<close>
  by code_simp

lemma ill_shaped_text:
  \<open>JSON_parse ''{"question":42}'' = Inr (JObj [(''question'', JNum (Finite 42))])\<close>
  by code_simp

lemma rounded_number_text:
  \<open>JSON_parse ''9007199254740993'' = Inr (JNum (Finite 9007199254740992))\<close>
  by code_simp

lemma large_number_text: \<open>ToString (JNum (Finite 1000000000000000000000)) = Inr ''1e+21''\<close>
  by code_simp

section \<open>The claims\<close>

subsection \<open>C1: what a failed call leaves in the result field\<close>

text \<open>
  C1, as amended. Both handlers clear their result field before the request is sent
  (line 66, line 92), and a call that fails writes no result: whenever the \<^verbatim>\<open>try\<close>
  block throws, the result field holds the cleared value afterwards, the empty string
  for \<open>answer\<close> and \<^verbatim>\<open>null\<close> for \<open>factResult\<close>, whatever it held before; the other
  persisted fields are as before, and the failure is reported in the error slot of
  that operation only. The block throws at every failing call: a network error, a body
  that is not JSON and a status outside 2xx in both operations, and in the fact check
  also a 2xx body whose \<^verbatim>\<open>result\<close> is not JSON.
\<close>

theorem failed_call_leaves_cleared_result:
  "(question st = JStr q \<and> trim q \<noteq> []
      \<and> handleQuery_try (backend (query_request (JStr q))) = Inl e \<longrightarrow>
      handleQuery backend st =
        Inr (st\<lparr>answer := JStr [], status := query_failed @ message e, loading := False\<rparr>,
             [query_request (JStr q)]))
   \<and> (claim st = JStr c \<and> trim c \<noteq> []
      \<and> handleFactCheck_try (backend (fact_check_request (JStr c))) = Inl e \<longrightarrow>
      handleFactCheck backend st =
        Inr (st\<lparr>factResult := JNull, factError := Some (fact_check_failed @ message e),
               factLoading := False\<rparr>,
             [fact_check_request (JStr c)]))
   \<and> (failing outcome \<longrightarrow> (\<exists>e. handleQuery_try outcome = Inl e))
   \<and> (failing outcome \<or> result_not_json outcome \<longrightarrow> (\<exists>e. handleFactCheck_try outcome = Inl e))"
proof (intro conjI impI)
  assume a: "question st = JStr q \<and> trim q \<noteq> []
      \<and> handleQuery_try (backend (query_request (JStr q))) = Inl e"
  then show "handleQuery backend st =
        Inr (st\<lparr>answer := JStr [], status := query_failed @ message e, loading := False\<rparr>,
             [query_request (JStr q)])"
    by (simp add: handleQuery_run handleQuery_settle_failed handleQuery_begin_def)
next
  assume a: "claim st = JStr c \<and> trim c \<noteq> []
      \<and> handleFactCheck_try (backend (fact_check_request (JStr c))) = Inl e"
  then show "handleFactCheck backend st =
        Inr (st\<lparr>factResult := JNull, factError := Some (fact_check_failed @ message e),
               factLoading := False\<rparr>,
             [fact_check_request (JStr c)])"
    by (simp add: handleFactCheck_run handleFactCheck_settle_failed handleFactCheck_begin_def)
next
  assume "failing outcome"
  then show "\<exists>e. handleQuery_try outcome = Inl e"
    by (rule failing_query)
next
  assume "failing outcome \<or> result_not_json outcome"
  then show "\<exists>e. handleFactCheck_try outcome = Inl e"
    using failing_fact_check result_not_json_fact_check by blast
qed

text \<open>
  C1: the theorem at the specification's scenario (HTTP 500 with
  \<^verbatim>\<open>{"detail":"index unavailable"}\<close>), at a network error of the fact check, and at
  a fact check answered with status 200 and a \<^verbatim>\<open>result\<close> that is not JSON.
\<close>

theorem failed_call_leaves_cleared_result_witness:
  "(\<exists>e. handleQuery (\<lambda>r. Responded False (Inr (JObj [(''detail'', JStr ''index unavailable'')])))
          (initial_state\<lparr>question := JStr ''q'', answer := JStr ''old''\<rparr>) =
         Inr (initial_state\<lparr>question := JStr ''q'', answer := JStr [],
                status := query_failed @ message e, loading := False\<rparr>,
              [query_request (JStr ''q'')]))
   \<and> (\<exists>e. handleFactCheck (\<lambda>r. Rejected (TypeError ''Failed to fetch''))
          (initial_state\<lparr>claim := JStr ''q'', factResult := JObj [(''verdict'', JStr ''SUPPORTED'')]\<rparr>) =
         Inr (initial_state\<lparr>claim := JStr ''q'', factResult := JNull,
                factError := Some (fact_check_failed @ message e), factLoading := False\<rparr>,
              [fact_check_request (JStr ''q'')]))
   \<and> (\<exists>e. handleFactCheck (\<lambda>r. Responded True (Inr (JObj [(''result'', JStr ''SUPPORTED'')])))
          (initial_state\<lparr>claim := JStr ''q'', factResult := JObj [(''verdict'', JStr ''REFUTED'')]\<rparr>) =
         Inr (initial_state\<lparr>claim := JStr ''q'', factResult := JNull,
                factError := Some (fact_check_failed @ message e), factLoading := False\<rparr>,
              [fact_check_request (JStr ''q'')]))"
proof (intro conjI)
  let ?out = "Responded False (Inr (JObj [(''detail'', JStr ''index unavailable'')]))"
  let ?st = "initial_state\<lparr>question := JStr ''q'', answer := JStr ''old''\<rparr>"
  have "failing ?out" by simp
  then obtain e where e: "handleQuery_try ?out = Inl e"
    using failed_call_leaves_cleared_result[where outcome = ?out] by blast
  have "question ?st = JStr ''q'' \<and> trim ''q'' \<noteq> [] \<and> handleQuery_try ?out = Inl e"
    using e by (simp add: trim_q)
  then have "handleQuery (\<lambda>r. ?out) ?st =
         Inr (?st\<lparr>answer := JStr [], status := query_failed @ message e, loading := False\<rparr>,
              [query_request (JStr ''q'')])"
    using failed_call_leaves_cleared_result
      [where st = ?st and backend = "\<lambda>r. ?out" and q = "''q''" and e = e]
    by blast
  then show "\<exists>e. handleQuery (\<lambda>r. ?out) ?st =
         Inr (initial_state\<lparr>question := JStr ''q'', answer := JStr [],
                status := query_failed @ message e, loading := False\<rparr>,
              [query_request (JStr ''q'')])"
    by auto
next
  let ?out = "Rejected (TypeError ''Failed to fetch'')"
  let ?st = "initial_state\<lparr>claim := JStr ''q'', factResult := JObj [(''verdict'', JStr ''SUPPORTED'')]\<rparr>"
  have "failing ?out \<or> result_not_json ?out" by simp
  then obtain e where e: "handleFactCheck_try ?out = Inl e"
    using failed_call_leaves_cleared_result[where outcome = ?out] by blast
  have "claim ?st = JStr ''q'' \<and> trim ''q'' \<noteq> [] \<and> handleFactCheck_try ?out = Inl e"
    using e by (simp add: trim_q)
  then have "handleFactCheck (\<lambda>r. ?out) ?st =
         Inr (?st\<lparr>factResult := JNull, factError := Some (fact_check_failed @ message e),
                factLoading := False\<rparr>,
              [fact_check_request (JStr ''q'')])"
    using failed_call_leaves_cleared_result
      [where st = ?st and backend = "\<lambda>r. ?out" and c = "''q''" and e = e]
    by blast
  then show "\<exists>e. handleFactCheck (\<lambda>r. ?out) ?st =
         Inr (initial_state\<lparr>claim := JStr ''q'', factResult := JNull,
                factError := Some (fact_check_failed @ message e), factLoading := False\<rparr>,
              [fact_check_request (JStr ''q'')])"
    by auto
next
  let ?out = "Responded True (Inr (JObj [(''result'', JStr ''SUPPORTED'')]))"
  let ?st = "initial_state\<lparr>claim := JStr ''q'', factResult := JObj [(''verdict'', JStr ''REFUTED'')]\<rparr>"
  have "JSON_parse_value (JStr ''SUPPORTED'') = Inl (SyntaxError ''Unexpected token in JSON: SUPPORTED'')"
    by (simp add: JSON_parse_value_def and_then_Inr not_json_text)
  then have "failing ?out \<or> result_not_json ?out"
    by (simp add: own_property_def)
  then obtain e where e: "handleFactCheck_try ?out = Inl e"
    using failed_call_leaves_cleared_result[where outcome = ?out] by blast
  have "claim ?st = JStr ''q'' \<and> trim ''q'' \<noteq> [] \<and> handleFactCheck_try ?out = Inl e"
    using e by (simp add: trim_q)
  then have "handleFactCheck (\<lambda>r. ?out) ?st =
         Inr (?st\<lparr>factResult := JNull, factError := Some (fact_check_failed @ message e),
                factLoading := False\<rparr>,
              [fact_check_request (JStr ''q'')])"
    using failed_call_leaves_cleared_result
      [where st = ?st and backend = "\<lambda>r. ?out" and c = "''q''" and e = e]
    by blast
  then show "\<exists>e. handleFactCheck (\<lambda>r. ?out) ?st =
         Inr (initial_state\<lparr>claim := JStr ''q'', factResult := JNull,
                factError := Some (fact_check_failed @ message e), factLoading := False\<rparr>,
              [fact_check_request (JStr ''q'')])"
    by auto
qed

text \<open>
  C1 as stated fails: after the failed query the answer is no longer \<^verbatim>\<open>old\<close>, and
  after the failed fact check the result \<^verbatim>\<open>SUPPORTED\<close> is gone.
\<close>

theorem failed_call_changes_result:
  "(\<exists>st'. handleQuery (\<lambda>r. Responded False (Inr (JObj [(''detail'', JStr ''index unavailable'')])))
            (initial_state\<lparr>question := JStr ''q'', answer := JStr ''old''\<rparr>) =
           Inr (st', [query_request (JStr ''q'')])
         \<and> answer st' \<noteq> answer (initial_state\<lparr>question := JStr ''q'', answer := JStr ''old''\<rparr>))
   \<and> (\<exists>st'. handleFactCheck (\<lambda>r. Responded False (Inr (JObj [(''detail'', JStr ''index unavailable'')])))
            (initial_state\<lparr>claim := JStr ''q'', factResult := JObj [(''verdict'', JStr ''SUPPORTED'')]\<rparr>) =
           Inr (st', [fact_check_request (JStr ''q'')])
         \<and> factResult st' \<noteq>
             factResult (initial_state\<lparr>claim := JStr ''q'', factResult := JObj [(''verdict'', JStr ''SUPPORTED'')]\<rparr>))"
proof -
  let ?out = "Responded False (Inr (JObj [(''detail'', JStr ''index unavailable'')]))"
  have "get_prop (JObj [(''detail'', JStr ''index unavailable'')]) ''detail'' =
      Inr (JStr ''index unavailable'')"
    by (simp add: own_property_def)
  then have t: "throw_failure (JObj [(''detail'', JStr ''index unavailable'')]) =
      Inl (Error ''index unavailable'')"
    using throw_failure_detail by fastforce
  have q: "handleQuery_try ?out = Inl (Error ''index unavailable'')"
    by (simp add: query_try_not_ok t)
  have f: "handleFactCheck_try ?out = Inl (Error ''index unavailable'')"
    by (simp add: fact_try_not_ok t)
  show ?thesis
    by (simp add: handleQuery_run handleFactCheck_run trim_q handleQuery_settle_failed[OF q]
        handleFactCheck_settle_failed[OF f] handleQuery_begin_def handleFactCheck_begin_def)
qed

subsection \<open>C2: when the query counts as failed\<close>

text \<open>
  C2, as amended. The query is a failure whenever the status is outside 2xx, whatever
  the body: settlement then writes no answer and sets the error slot. Within 2xx the
  body is not searched for a \<^verbatim>\<open>detail\<close> field: a 2xx response whose body is an
  object is a success whether or not it has one, its \<^verbatim>\<open>answer\<close> field (or the
  placeholder) is written, and the error slot is left as it is.
\<close>

theorem query_fails_by_status_only:
  "(\<exists>e. handleQuery_settle (Responded False json) st =
          st\<lparr>status := query_failed @ message e, loading := False\<rparr>)
   \<and> handleQuery_settle (Responded True (Inr (JObj kvs))) st =
       st\<lparr>answer := js_coalesce (own_property kvs ''answer'') (JStr ''No answer returned.''),
          loading := False\<rparr>"
proof
  have "failing (Responded False json)"
    by (cases json) simp_all
  then obtain e where "handleQuery_try (Responded False json) = Inl e"
    using failing_query by blast
  then have "handleQuery_settle (Responded False json) st =
          st\<lparr>status := query_failed @ message e, loading := False\<rparr>"
    by (rule handleQuery_settle_failed)
  then show "\<exists>e. handleQuery_settle (Responded False json) st =
          st\<lparr>status := query_failed @ message e, loading := False\<rparr>" ..
next
  have "handleQuery_try (Responded True (Inr (JObj kvs))) =
      Inr (js_coalesce (own_property kvs ''answer'') (JStr ''No answer returned.''))"
    by (simp add: query_try_ok and_then_Inr)
  then show "handleQuery_settle (Responded True (Inr (JObj kvs))) st =
       st\<lparr>answer := js_coalesce (own_property kvs ''answer'') (JStr ''No answer returned.''),
          loading := False\<rparr>"
    by (rule handleQuery_settle_ok)
qed

text \<open>
  C2: the theorem at a 500 response, and at a 200 response whose body has both a
  \<^verbatim>\<open>detail\<close> and an \<^verbatim>\<open>answer\<close>.
\<close>

theorem query_fails_by_status_only_witness:
  "(\<exists>e. handleQuery_settle (Responded False (Inr (JObj [(''detail'', JStr ''index unavailable'')])))
          (handleQuery_begin initial_state) =
        initial_state\<lparr>status := query_failed @ message e\<rparr>)
   \<and> handleQuery_settle
        (Responded True (Inr (JObj [(''detail'', JStr ''slow index''), (''answer'', JStr ''X'')])))
        (handleQuery_begin initial_state) =
       initial_state\<lparr>answer := JStr ''X''\<rparr>"
  using query_fails_by_status_only
    [of "Inr (JObj [(''detail'', JStr ''index unavailable'')])" "handleQuery_begin initial_state"
        "[(''detail'', JStr ''slow index''), (''answer'', JStr ''X'')]"]
  by (simp add: handleQuery_begin_def initial_state_def own_property_def js_coalesce_def)

text \<open>
  C2 as stated fails: a 2xx response whose body contains a \<^verbatim>\<open>detail\<close> field is
  settled as a success; the placeholder answer is written and the error slot stays
  empty.
\<close>

theorem detail_with_2xx_is_success:
  "handleQuery (\<lambda>r. Responded True (Inr (JObj [(''detail'', JStr ''index unavailable'')])))
     (initial_state\<lparr>question := JStr ''q''\<rparr>) =
   Inr (initial_state\<lparr>question := JStr ''q'', answer := JStr ''No answer returned.''\<rparr>,
        [query_request (JStr ''q'')])"
proof -
  have "handleQuery_try (Responded True (Inr (JObj [(''detail'', JStr ''index unavailable'')]))) =
      Inr (JStr ''No answer returned.'')"
    by (simp add: query_try_ok and_then_Inr own_property_def js_coalesce_def)
  then show ?thesis
    by (simp add: handleQuery_run trim_q handleQuery_settle_ok handleQuery_begin_def
        initial_state_def)
qed

subsection \<open>C3: the answer of a successful query\<close>

text \<open>
  C3, as amended. For a question that is not blank, when the backend replies with a 2xx
  status and a JSON body whose \<^verbatim>\<open>answer\<close> can be read (any body but \<^verbatim>\<open>null\<close>), the
  \<^verbatim>\<open>answer\<close> field is written to the persisted \<open>answer\<close> and the error slot ends
  empty; if the field is absent or \<^verbatim>\<open>null\<close>, the placeholder is written instead.
\<close>

theorem successful_query_writes_answer:
  assumes "question st = JStr q" and "trim q \<noteq> []"
    and "backend (query_request (JStr q)) = Responded True (Inr data)"
    and "get_prop data ''answer'' = Inr a"
  shows "handleQuery backend st =
     Inr (st\<lparr>answer := (if a = JUndefined \<or> a = JNull then JStr ''No answer returned.'' else a),
            status := [], loading := False\<rparr>,
          [query_request (JStr q)])"
proof -
  have n: "nullish a = (a = JUndefined \<or> a = JNull)"
    by (cases a) auto
  have "handleQuery_try (backend (query_request (JStr q))) =
      Inr (if a = JUndefined \<or> a = JNull then JStr ''No answer returned.'' else a)"
    using assms(3,4) n by (simp add: query_try_ok and_then_Inr js_coalesce_def)
  then show ?thesis
    using assms(1,2) by (simp add: handleQuery_run handleQuery_settle_ok handleQuery_begin_def)
qed

text \<open>C3: the theorem at the specification's example, the body \<^verbatim>\<open>{"answer":"X"}\<close>.\<close>

theorem successful_query_writes_answer_witness:
  "handleQuery (\<lambda>r. Responded True (Inr (JObj [(''answer'', JStr ''X'')])))
     (initial_state\<lparr>question := JStr ''q'', status := ''old error''\<rparr>) =
   Inr (initial_state\<lparr>question := JStr ''q'', answer := JStr ''X''\<rparr>,
        [query_request (JStr ''q'')])"
proof -
  let ?st = "initial_state\<lparr>question := JStr ''q'', status := ''old error''\<rparr>"
  have "question ?st = JStr ''q''" by simp
  moreover have "get_prop (JObj [(''answer'', JStr ''X'')]) ''answer'' = Inr (JStr ''X'')"
    by (simp add: own_property_def)
  ultimately show ?thesis
    using successful_query_writes_answer
      [of ?st "''q''" "\<lambda>r. Responded True (Inr (JObj [(''answer'', JStr ''X'')]))"
          "JObj [(''answer'', JStr ''X'')]" "JStr ''X''"] trim_q
    by (simp add: initial_state_def)
qed

text \<open>
  C3 as stated fails at the body \<^verbatim>\<open>null\<close>, which is JSON and arrives with status
  200: reading its \<^verbatim>\<open>answer\<close> throws, no answer is written and the error slot is set.
\<close>

theorem null_body_with_2xx_is_failure:
  "handleQuery (\<lambda>r. Responded True (Inr JNull)) (initial_state\<lparr>question := JStr ''q''\<rparr>) =
   Inr (initial_state\<lparr>question := JStr ''q'',
          status := query_failed @ ''Cannot read properties of null (reading 'answer')''\<rparr>,
        [query_request (JStr ''q'')])"
proof -
  have "handleQuery_try (Responded True (Inr JNull)) =
      Inl (TypeError ''Cannot read properties of null (reading 'answer')'')"
    by (simp add: query_try_ok and_then_Inl)
  then show ?thesis
    by (simp add: handleQuery_run trim_q handleQuery_settle_failed handleQuery_begin_def
        initial_state_def)
qed

subsection \<open>C4: the two stages of decoding a fact-check response\<close>



subsection \<open>C5: persisting and loading again\<close>

text \<open>
  C5. For every session state of the declared type (three strings and a fact result or
  \<^verbatim>\<open>null\<close>), the text the persist effect stores parses, on its own, to the object of
  all four fields, and loading from the storage so written gives back the same four
  fields, whatever the state loaded into.
\<close>

theorem persist_then_hydrate:
  assumes "persisted st = js_of_PersistedState s"
  shows "persisted (hydrate (persist st (Some ls)) st0) = persisted st
       \<and> (\<exists>text. persist st (Some ls) = Some (ls(STORAGE_KEY \<mapsto> text))
              \<and> JSON_parse text =
                  Inr (JObj [(''question'', JStr (p_question s)), (''answer'', JStr (p_answer s)),
                             (''claim'', JStr (p_claim s)),
                             (''factResult'', js_of_factResult (p_factResult s))]))"
proof
  let ?saved = "JObj [(''question'', JStr (p_question s)), (''answer'', JStr (p_answer s)),
                      (''claim'', JStr (p_claim s)),
                      (''factResult'', js_of_factResult (p_factResult s))]"
  let ?ls = "ls(STORAGE_KEY \<mapsto> ser (stateToSave st))"
  have parse: "JSON_parse (ser (stateToSave st)) = Inr ?saved"
    using JSON_parse_ser[OF plain_stateToSave[OF assms]] stateToSave_typed[OF assms] by simp
  have "hydrate (Some ?ls) st0 =
      st0\<lparr>question := js_or (JStr (p_question s)) (JStr []),
          answer := js_or (JStr (p_answer s)) (JStr []),
          claim := js_or (JStr (p_claim s)) (JStr []),
          factResult := js_or (js_of_factResult (p_factResult s)) JNull\<rparr>"
    by (rule hydrate_fields[where raw = "ser (stateToSave st)" and saved = ?saved])
      (simp_all add: parse ser_nonempty[OF plain_stateToSave[OF assms]] own_property_def)
  then have "persisted (hydrate (Some ?ls) st0) = js_of_PersistedState s"
    by (simp add: persisted_def js_of_PersistedState_def js_or_string truthy_factResult)
  then show "persisted (hydrate (persist st (Some ls)) st0) = persisted st"
    using assms by (simp add: persist_text)
  show "\<exists>text. persist st (Some ls) = Some (ls(STORAGE_KEY \<mapsto> text)) \<and> JSON_parse text = Inr ?saved"
    using parse persist_text by blast
qed

text \<open>
  C5: the theorem at a state whose question holds a quote, a backslash and a line feed, and
  whose fact result is the one of the specification's scenario.
\<close>

theorem persist_then_hydrate_witness:
  "persisted
     (hydrate
        (persist
           (initial_state\<lparr>question := JStr [CHR ''a'', CHR 0x22, CHR 0x5C, CHR 0x0A],
              answer := JStr ''X'',
              factResult := JObj [(''verdict'', JStr ''SUPPORTED''),
                                  (''reason'', JStr ''Confirmed by doc X''),
                                  (''evidence'', JArr [JStr ''doc X, p.2''])]\<rparr>)
           (Some Map.empty))
        initial_state) =
   (JStr [CHR ''a'', CHR 0x22, CHR 0x5C, CHR 0x0A], JStr ''X'', JStr [],
    JObj [(''verdict'', JStr ''SUPPORTED''), (''reason'', JStr ''Confirmed by doc X''),
          (''evidence'', JArr [JStr ''doc X, p.2''])])"
proof -
  let ?st = "initial_state\<lparr>question := JStr [CHR ''a'', CHR 0x22, CHR 0x5C, CHR 0x0A],
              answer := JStr ''X'',
              factResult := JObj [(''verdict'', JStr ''SUPPORTED''),
                                  (''reason'', JStr ''Confirmed by doc X''),
                                  (''evidence'', JArr [JStr ''doc X, p.2''])]\<rparr>"
  let ?s = "\<lparr>p_question = [CHR ''a'', CHR 0x22, CHR 0x5C, CHR 0x0A], p_answer = ''X'', p_claim = [],
             p_factResult = Some \<lparr>verdict = ''SUPPORTED'', reason = ''Confirmed by doc X'',
                                   evidence = [''doc X, p.2'']\<rparr>\<rparr>"
  have "persisted ?st = js_of_PersistedState ?s"
    by (simp add: persisted_def js_of_PersistedState_def js_of_factResult_def js_of_FactResult_def
        initial_state_def)
  then have "persisted (hydrate (persist ?st (Some Map.empty)) initial_state) = persisted ?st"
    by (rule persist_then_hydrate[THEN conjunct1])
  then show ?thesis
    by (simp add: persisted_def initial_state_def)
qed

subsection \<open>C6: loading without a usable payload\<close>

text \<open>
  What the load effect does ignore: a missing storage, an absent or empty item, a text
  that is not JSON and the text \<^verbatim>\<open>null\<close> leave the state as it is, and so does, on
  first activation, a JSON text that is not an object. Of an object every field that
  is truthy is stored.
\<close>

lemma hydrate_cases:
  "((window = None
      \<or> (\<exists>ls. window = Some ls
            \<and> (ls STORAGE_KEY = None \<or> ls STORAGE_KEY = Some []
                \<or> (\<exists>raw e. ls STORAGE_KEY = Some raw \<and> JSON_parse raw = Inl e)
                \<or> (\<exists>raw. ls STORAGE_KEY = Some raw \<and> JSON_parse raw = Inr JNull)))) \<longrightarrow>
      hydrate window st = st)
   \<and> (ls STORAGE_KEY = Some raw \<and> raw \<noteq> [] \<and> JSON_parse raw = Inr saved
        \<and> saved \<noteq> JNull \<and> saved \<noteq> JUndefined \<and> (\<forall>kvs. saved \<noteq> JObj kvs) \<longrightarrow>
      hydrate (Some ls) initial_state = initial_state)
   \<and> (ls STORAGE_KEY = Some raw \<and> raw \<noteq> [] \<and> JSON_parse raw = Inr (JObj kvs) \<longrightarrow>
      hydrate (Some ls) st =
        st\<lparr>question := js_or (own_property kvs ''question'') (JStr []),
           answer := js_or (own_property kvs ''answer'') (JStr []),
           claim := js_or (own_property kvs ''claim'') (JStr []),
           factResult := js_or (own_property kvs ''factResult'') JNull\<rparr>)"
proof (intro conjI impI)
  assume "window = None
      \<or> (\<exists>ls. window = Some ls
            \<and> (ls STORAGE_KEY = None \<or> ls STORAGE_KEY = Some []
                \<or> (\<exists>raw e. ls STORAGE_KEY = Some raw \<and> JSON_parse raw = Inl e)
                \<or> (\<exists>raw. ls STORAGE_KEY = Some raw \<and> JSON_parse raw = Inr JNull)))"
  then show "hydrate window st = st"
    using hydrate_no_window hydrate_no_item hydrate_empty_item hydrate_not_json hydrate_null
    by (elim disjE exE conjE) simp_all
next
  assume a: "ls STORAGE_KEY = Some raw \<and> raw \<noteq> [] \<and> JSON_parse raw = Inr saved
        \<and> saved \<noteq> JNull \<and> saved \<noteq> JUndefined \<and> (\<forall>kvs. saved \<noteq> JObj kvs)"
  then have "get_prop saved name = Inr JUndefined" for name
    by (cases saved) auto
  then have "hydrate (Some ls) initial_state =
      initial_state\<lparr>question := js_or JUndefined (JStr []), answer := js_or JUndefined (JStr []),
        claim := js_or JUndefined (JStr []), factResult := js_or JUndefined JNull\<rparr>"
    using a hydrate_fields by blast
  then show "hydrate (Some ls) initial_state = initial_state"
    by (simp add: js_or_def initial_state_def)
next
  assume a: "ls STORAGE_KEY = Some raw \<and> raw \<noteq> [] \<and> JSON_parse raw = Inr (JObj kvs)"
  have "get_prop (JObj kvs) name = Inr (own_property kvs name)" for name
    by simp
  then show "hydrate (Some ls) st =
        st\<lparr>question := js_or (own_property kvs ''question'') (JStr []),
           answer := js_or (own_property kvs ''answer'') (JStr []),
           claim := js_or (own_property kvs ''claim'') (JStr []),
           factResult := js_or (own_property kvs ''factResult'') JNull\<rparr>"
    using a hydrate_fields by blast
qed

text \<open>
  C6 does not hold of the code. The load effect means to ignore a corrupt payload (line
  46), but it checks nothing of what \<^verbatim>\<open>JSON.parse\<close> returns: at the stored text
  \<^verbatim>\<open>{"question":42}\<close>, which is JSON and not a session state, the fields do not stay
  at their defaults. The number 42 becomes the question, and the next render, which
  calls \<^verbatim>\<open>question.trim()\<close> (line 193), throws a TypeError.
\<close>

theorem ill_shaped_payload_is_loaded:
  \<open>hydrate (Some [STORAGE_KEY \<mapsto> ''{"question":42}'']) initial_state =
     initial_state\<lparr>question := JNum (Finite 42)\<rparr>
   \<and> question (initial_state\<lparr>question := JNum (Finite 42)\<rparr>) \<noteq> question initial_state
   \<and> query_disabled (initial_state\<lparr>question := JNum (Finite 42)\<rparr>) =
       Inl (TypeError ''question.trim is not a function'')\<close>
proof -
  let ?ls = \<open>[STORAGE_KEY \<mapsto> ''{"question":42}'']\<close>
  have "hydrate (Some ?ls) initial_state =
      initial_state\<lparr>question := js_or (JNum (Finite 42)) (JStr []), answer := js_or JUndefined (JStr []),
        claim := js_or JUndefined (JStr []), factResult := js_or JUndefined JNull\<rparr>"
    by (rule hydrate_fields[where raw = \<open>''{"question":42}''\<close>
          and saved = "JObj [(''question'', JNum (Finite 42))]"])
      (simp_all add: ill_shaped_text own_property_def)
  then show ?thesis
    by (simp add: js_or_def initial_state_def query_disabled_def and_then_Inl)
qed

subsection \<open>C7: the class of a verdict\<close>

text \<open>
  C7. The class of the verdict badge is a function of the verdict alone:
  \<^verbatim>\<open>SUPPORTED\<close> gets the green (positive) class, \<^verbatim>\<open>REFUTED\<close> the red (negative)
  class, and every other value the yellow (neutral) class; the three classes differ.
\<close>

theorem verdict_classes:
  "verdict_className (JStr ''SUPPORTED'') = positive_class
   \<and> verdict_className (JStr ''REFUTED'') = negative_class
   \<and> (\<forall>v. v \<noteq> JStr ''SUPPORTED'' \<and> v \<noteq> JStr ''REFUTED'' \<longrightarrow> verdict_className v = neutral_class)
   \<and> distinct [positive_class, negative_class, neutral_class]"
  by (simp add: verdict_className_def positive_class_def negative_class_def neutral_class_def)

text \<open>C7: the theorem at a verdict outside the two the page knows.\<close>

theorem verdict_classes_witness:
  "verdict_className (JStr ''NOT_ENOUGH_INFO'') = neutral_class"
proof -
  have "JStr ''NOT_ENOUGH_INFO'' \<noteq> JStr ''SUPPORTED'' \<and> JStr ''NOT_ENOUGH_INFO'' \<noteq> JStr ''REFUTED''"
    by simp
  then show ?thesis
    by (rule verdict_classes[THEN conjunct2, THEN conjunct2, THEN conjunct1, rule_format])
qed

subsection \<open>C8: blank input\<close>

text \<open>
  C8. When the input is empty or made of white space only (a sequence of white-space
  characters of ECMAScript, the empty sequence included), both handlers return at
  once: the state is the one they were called in, busy flag and error slot included,
  and no request is sent.
\<close>

theorem blank_input_is_noop:
  assumes "set ws \<subseteq> set white_space"
  shows "(question st = JStr (concat ws) \<longrightarrow> handleQuery backend st = Inr (st, []))
       \<and> (claim st = JStr (concat ws) \<longrightarrow> handleFactCheck backend st = Inr (st, []))"
  using trim_blank[OF assms]
  by (simp add: handleQuery_def handleFactCheck_def and_then_Inr)

text \<open>C8: the theorem at the empty question and at a claim of a space, a tab and a line feed.\<close>

theorem blank_input_is_noop_witness:
  "handleQuery (\<lambda>r. Responded True (Inr (JObj [(''answer'', JStr ''X'')]))) initial_state =
     Inr (initial_state, [])
   \<and> handleFactCheck (\<lambda>r. Responded True (Inr (JObj [(''answer'', JStr ''X'')])))
       (initial_state\<lparr>claim := JStr [CHR 0x20, CHR 0x09, CHR 0x0A]\<rparr>) =
     Inr (initial_state\<lparr>claim := JStr [CHR 0x20, CHR 0x09, CHR 0x0A]\<rparr>, [])"
proof
  have "set [] \<subseteq> set white_space" by simp
  then show "handleQuery (\<lambda>r. Responded True (Inr (JObj [(''answer'', JStr ''X'')]))) initial_state =
     Inr (initial_state, [])"
    using blank_input_is_noop[of "[]" initial_state] by (simp add: initial_state_def)
next
  have "set [[CHR 0x20], [CHR 0x09], [CHR 0x0A]] \<subseteq> set white_space"
    by (simp add: white_space_def)
  then show "handleFactCheck (\<lambda>r. Responded True (Inr (JObj [(''answer'', JStr ''X'')])))
       (initial_state\<lparr>claim := JStr [CHR 0x20, CHR 0x09, CHR 0x0A]\<rparr>) =
     Inr (initial_state\<lparr>claim := JStr [CHR 0x20, CHR 0x09, CHR 0x0A]\<rparr>, [])"
    using blank_input_is_noop
      [of "[[CHR 0x20], [CHR 0x09], [CHR 0x0A]]" "initial_state\<lparr>claim := JStr [CHR 0x20, CHR 0x09, CHR 0x0A]\<rparr>"]
    by simp
qed

subsection \<open>C9: the busy flag after settlement\<close>

text \<open>
  C9. Whatever the outcome of the request (a network error, a body that is not JSON, a
  status outside 2xx, a success), settlement leaves the busy flag of the operation
  false; so does the whole handler whenever it has sent a request.
\<close>

theorem busy_is_false_after_settlement:
  "\<not> loading (handleQuery_settle outcome st)
   \<and> \<not> factLoading (handleFactCheck_settle outcome st)
   \<and> (handleQuery backend st = Inr (st', req # reqs) \<longrightarrow> \<not> loading st')
   \<and> (handleFactCheck backend st = Inr (st', req # reqs) \<longrightarrow> \<not> factLoading st')"
proof (intro conjI impI)
  show q: "\<not> loading (handleQuery_settle outcome st)" for outcome st
    by (simp add: handleQuery_settle_def)
  show f: "\<not> factLoading (handleFactCheck_settle outcome st)" for outcome st
    by (simp add: handleFactCheck_settle_def)
  show "\<not> loading st'" if "handleQuery backend st = Inr (st', req # reqs)"
    using that q
    by (auto simp: handleQuery_def and_then_def Let_def split: sum.splits if_splits)
  show "\<not> factLoading st'" if "handleFactCheck backend st = Inr (st', req # reqs)"
    using that f
    by (auto simp: handleFactCheck_def and_then_def Let_def split: sum.splits if_splits)
qed

text \<open>C9: the theorem at a query whose request meets a network error while the flag is set.\<close>

theorem busy_is_false_after_settlement_witness:
  "\<not> loading (handleQuery_settle (Rejected (TypeError ''Failed to fetch''))
                (handleQuery_begin initial_state))
   \<and> \<not> factLoading (handleFactCheck_settle (Responded True (Inl (SyntaxError ''Unexpected token'')))
                      (handleFactCheck_begin initial_state))"
  using busy_is_false_after_settlement by blast

subsection \<open>C10: the message of an HTTP failure\<close>

text \<open>
  C10, as amended. In both operations, on a response outside 2xx whose body is any JSON
  value but \<^verbatim>\<open>null\<close>, the error message is the fixed prefix followed by the
  \<^verbatim>\<open>detail\<close> field, converted to a string, when that field is truthy, and by the
  JSON text of the whole body when the field is absent or falsy (the empty string among
  them). When the conversion of a truthy \<^verbatim>\<open>detail\<close> throws (an object with a
  \<^verbatim>\<open>toString\<close> property of its own), the message of that error follows the prefix.
  For the body \<^verbatim>\<open>null\<close> reading \<^verbatim>\<open>detail\<close> throws, and the message of that error
  follows the prefix.
\<close>

theorem http_failure_message:
  "(get_prop data ''detail'' = Inr d \<longrightarrow>
      handleQuery_settle (Responded False (Inr data)) st =
        st\<lparr>status := query_failed @
                (if truthy d then (case ToString d of Inr text \<Rightarrow> text | Inl e \<Rightarrow> message e)
                 else ser data),
           loading := False\<rparr>
      \<and> handleFactCheck_settle (Responded False (Inr data)) st =
        st\<lparr>factError := Some (fact_check_failed @
                (if truthy d then (case ToString d of Inr text \<Rightarrow> text | Inl e \<Rightarrow> message e)
                 else ser data)),
           factLoading := False\<rparr>)
   \<and> (get_prop data ''detail'' = Inl e \<longrightarrow>
      handleQuery_settle (Responded False (Inr data)) st =
        st\<lparr>status := query_failed @ message e, loading := False\<rparr>
      \<and> handleFactCheck_settle (Responded False (Inr data)) st =
        st\<lparr>factError := Some (fact_check_failed @ message e), factLoading := False\<rparr>)"
proof (intro conjI impI)
  assume d: "get_prop data ''detail'' = Inr d"
  let ?m = "if truthy d then (case ToString d of Inr text \<Rightarrow> text | Inl e \<Rightarrow> message e)
            else ser data"
  obtain e where e: "throw_failure data = Inl e" and m: "message e = ?m"
    using throw_failure_message[OF d] by blast
  have "handleQuery_try (Responded False (Inr data)) = Inl e"
    using e by (simp only: query_try_not_ok)
  then have "handleQuery_settle (Responded False (Inr data)) st =
        st\<lparr>status := query_failed @ message e, loading := False\<rparr>"
    by (rule handleQuery_settle_failed)
  then show "handleQuery_settle (Responded False (Inr data)) st =
        st\<lparr>status := query_failed @ ?m, loading := False\<rparr>"
    by (simp only: m)
  have "handleFactCheck_try (Responded False (Inr data)) = Inl e"
    using e by (simp only: fact_try_not_ok)
  then have "handleFactCheck_settle (Responded False (Inr data)) st =
        st\<lparr>factError := Some (fact_check_failed @ message e), factLoading := False\<rparr>"
    by (rule handleFactCheck_settle_failed)
  then show "handleFactCheck_settle (Responded False (Inr data)) st =
        st\<lparr>factError := Some (fact_check_failed @ ?m), factLoading := False\<rparr>"
    by (simp only: m)
next
  assume e: "get_prop data ''detail'' = Inl e"
  have "handleQuery_try (Responded False (Inr data)) = Inl e"
    using e by (simp only: query_try_not_ok throw_failure_raises)
  then show "handleQuery_settle (Responded False (Inr data)) st =
        st\<lparr>status := query_failed @ message e, loading := False\<rparr>"
    by (rule handleQuery_settle_failed)
  have "handleFactCheck_try (Responded False (Inr data)) = Inl e"
    using e by (simp only: fact_try_not_ok throw_failure_raises)
  then show "handleFactCheck_settle (Responded False (Inr data)) st =
        st\<lparr>factError := Some (fact_check_failed @ message e), factLoading := False\<rparr>"
    by (rule handleFactCheck_settle_failed)
qed

text \<open>
  C10: the theorem at a body with a \<^verbatim>\<open>detail\<close>, at a body whose \<^verbatim>\<open>detail\<close> is the
  empty string, at a \<^verbatim>\<open>detail\<close> that is the number \<open>10 ^ 21\<close>, and at a \<^verbatim>\<open>detail\<close>
  that is an object with a \<^verbatim>\<open>toString\<close> property.
\<close>

theorem http_failure_message_witness:
  \<open>handleQuery_settle (Responded False (Inr (JObj [(''detail'', JStr ''index unavailable'')])))
     initial_state =
   initial_state\<lparr>status := query_failed @ ''index unavailable''\<rparr>
   \<and> handleFactCheck_settle (Responded False (Inr (JObj [(''detail'', JStr [])]))) initial_state =
     initial_state\<lparr>factError := Some (fact_check_failed @ ''{"detail":""}'')\<rparr>
   \<and> handleQuery_settle
       (Responded False (Inr (JObj [(''detail'', JNum (Finite 1000000000000000000000))])))
       initial_state =
     initial_state\<lparr>status := query_failed @ ''1e+21''\<rparr>
   \<and> handleQuery_settle
       (Responded False (Inr (JObj [(''detail'', JObj [(''toString'', JStr ''x'')])])))
       initial_state =
     initial_state\<lparr>status := query_failed @ ''Cannot convert object to primitive value''\<rparr>\<close>
proof (intro conjI)
  have "get_prop (JObj [(''detail'', JStr ''index unavailable'')]) ''detail'' =
      Inr (JStr ''index unavailable'')"
    by (simp add: own_property_def)
  then show "handleQuery_settle (Responded False (Inr (JObj [(''detail'', JStr ''index unavailable'')])))
     initial_state = initial_state\<lparr>status := query_failed @ ''index unavailable''\<rparr>"
    using http_failure_message
      [of "JObj [(''detail'', JStr ''index unavailable'')]" "JStr ''index unavailable''"
          initial_state]
    by (simp add: initial_state_def)
next
  have "get_prop (JObj [(''detail'', JStr [])]) ''detail'' = Inr (JStr [])"
    by (simp add: own_property_def)
  moreover have \<open>ser (JObj [(''detail'', JStr [])]) = ''{"detail":""}''\<close>
    by code_simp
  ultimately show \<open>handleFactCheck_settle (Responded False (Inr (JObj [(''detail'', JStr [])]))) initial_state =
     initial_state\<lparr>factError := Some (fact_check_failed @ ''{"detail":""}'')\<rparr>\<close>
    using http_failure_message [of "JObj [(''detail'', JStr [])]" "JStr []" initial_state]
    by (simp add: initial_state_def)
next
  let ?d = "JNum (Finite 1000000000000000000000)"
  have "get_prop (JObj [(''detail'', ?d)]) ''detail'' = Inr ?d"
    by (simp add: own_property_def)
  then show "handleQuery_settle (Responded False (Inr (JObj [(''detail'', ?d)]))) initial_state =
     initial_state\<lparr>status := query_failed @ ''1e+21''\<rparr>"
    using http_failure_message [of "JObj [(''detail'', ?d)]" ?d initial_state] large_number_text
    by (simp add: initial_state_def)
next
  let ?d = "JObj [(''toString'', JStr ''x'')]"
  have "get_prop (JObj [(''detail'', ?d)]) ''detail'' = Inr ?d"
    by (simp add: own_property_def)
  then show "handleQuery_settle (Responded False (Inr (JObj [(''detail'', ?d)]))) initial_state =
     initial_state\<lparr>status := query_failed @ ''Cannot convert object to primitive value''\<rparr>"
    using http_failure_message [of "JObj [(''detail'', ?d)]" ?d initial_state]
    by (simp add: initial_state_def)
qed

text \<open>
  C10 as stated fails at the body \<^verbatim>\<open>null\<close>, which has no \<^verbatim>\<open>detail\<close>: the message
  is not the prefix followed by the JSON text of the body.
\<close>

theorem null_body_message_is_not_its_text:
  "status (handleQuery_settle (Responded False (Inr JNull)) initial_state) =
     query_failed @ ''Cannot read properties of null (reading 'detail')''
   \<and> status (handleQuery_settle (Responded False (Inr JNull)) initial_state) \<noteq>
     query_failed @ ser JNull"
proof -
  have "handleQuery_try (Responded False (Inr JNull)) =
      Inl (TypeError ''Cannot read properties of null (reading 'detail')'')"
    by (simp add: query_try_not_ok throw_failure_raises)
  then show ?thesis
    by (simp add: handleQuery_settle_failed)
qed

end
